theory Spec2Isabelle
  imports Main "HOL-Library.AList" "HOL-Library.Char_ord" "HOL-Library.List_Lexorder"
begin

section \<open>Python dictionaries\<close>

text \<open>
  A Python \<^verbatim>\<open>dict\<close> keeps its keys in insertion order. It is modelled as an association
  list; \<^verbatim>\<open>d.get(k, default)\<close>, \<^verbatim>\<open>k in d\<close> and \<^verbatim>\<open>d[k] = v\<close> read and write it the
  way Python does (an existing key keeps its position, a new key goes to the end).
\<close>

type_synonym ('k, 'v) dict = "('k \<times> 'v) list"

definition dict_get :: "('k, 'v) dict \<Rightarrow> 'k \<Rightarrow> 'v \<Rightarrow> 'v" where
  "dict_get d k dflt = (case map_of d k of None \<Rightarrow> dflt | Some v \<Rightarrow> v)"

definition dict_in :: "'k \<Rightarrow> ('k, 'v) dict \<Rightarrow> bool" where
  "dict_in k d = (map_of d k \<noteq> None)"

definition dict_keys :: "('k, 'v) dict \<Rightarrow> 'k list" where
  "dict_keys d = map fst d"

definition dict_values :: "('k, 'v) dict \<Rightarrow> 'v list" where
  "dict_values d = map snd d"

section \<open>java-audit.py: the enumerated-identity audit\<close>

subsection \<open>Data structures\<close>

record MessageInfo =
  code :: string
  severity :: string
  message_text :: string
  java_files :: "string list"
  category :: string
  in_go_code :: bool
  in_bdd_tests :: bool
  override_status :: string
  override_note :: string

text \<open>The dataclass defaults: \<^verbatim>\<open>MessageInfo(code=code, category=category)\<close>.\<close>

definition new_MessageInfo :: "string \<Rightarrow> string \<Rightarrow> MessageInfo" where
  "new_MessageInfo c cat =
     \<lparr>code = c, severity = '''', message_text = '''', java_files = [], category = cat,
      in_go_code = False, in_bdd_tests = False, override_status = '''', override_note = ''''\<rparr>"

text \<open>The property \<^verbatim>\<open>MessageInfo.status\<close>; an empty string is falsy in Python.\<close>

definition status :: "MessageInfo \<Rightarrow> string" where
  "status m =
     (if override_status m \<noteq> '''' then override_status m
      else if severity m = ''SUPPRESSED'' then ''suppressed''
      else if in_go_code m then ''implemented''
      else ''missing'')"

subsection \<open>Overrides\<close>

text \<open>
  \<^verbatim>\<open>apply_overrides\<close> walks \<^verbatim>\<open>KNOWN_OVERRIDES.items()\<close>; the table is a parameter here.
  Each override is itself a dict with the keys \<^verbatim>\<open>status\<close>, \<^verbatim>\<open>go\<close> and \<^verbatim>\<open>note\<close>.
\<close>

definition apply_override :: "string \<Rightarrow> (string, string) dict \<Rightarrow> MessageInfo \<Rightarrow> MessageInfo" where
  "apply_override c override m =
     m\<lparr>override_status := dict_get override ''status'' '''',
       override_note := dict_get override ''note'' ''''\<rparr>"

fun apply_overrides ::
  "(string, (string, string) dict) dict \<Rightarrow> (string, MessageInfo) dict \<Rightarrow> (string, MessageInfo) dict"
where
  "apply_overrides [] messages = messages"
| "apply_overrides ((c, override) # rest) messages =
     apply_overrides rest
       (if dict_in c messages then AList.map_entry c (apply_override c override) messages
        else messages)"

text \<open>The fields of a message that \<^verbatim>\<open>apply_overrides\<close> has no business with.\<close>

definition other_fields ::
  "MessageInfo \<Rightarrow> string \<times> string \<times> string \<times> string list \<times> string \<times> bool \<times> bool"
where
  "other_fields m =
     (code m, severity m, message_text m, java_files m, category m, in_go_code m,
      in_bdd_tests m)"

subsection \<open>Parsers: ID normalization\<close>

text \<open>
  \<^verbatim>\<open>str.replace(old, new)\<close> for one-character arguments, and \<^verbatim>\<open>s.split("-")[0]\<close>,
  the part of \<^verbatim>\<open>s\<close> before the first hyphen (all of \<^verbatim>\<open>s\<close> when there is none).
\<close>

definition replace_char :: "char \<Rightarrow> char \<Rightarrow> string \<Rightarrow> string" where
  "replace_char old new s = map (\<lambda>c. if c = old then new else c) s"

definition split_first :: "char \<Rightarrow> string \<Rightarrow> string" where
  "split_first sep s = takeWhile (\<lambda>c. c \<noteq> sep) s"

definition is_upper :: "char \<Rightarrow> bool" where
  "is_upper c = (CHR ''A'' \<le> c \<and> c \<le> CHR ''Z'')"


definition is_digit :: "char \<Rightarrow> bool" where
  "is_digit c = (CHR ''0'' \<le> c \<and> c \<le> CHR ''9'')"

text \<open>
  \<^verbatim>\<open>parse_message_ids\<close>. The regular expression search is the library's; the input here
  is the list of its captures \<^verbatim>\<open>m.group(1)\<close>, one per matching line of MessageId.java in
  line order. Each capture has the shape \<^verbatim>\<open>[A-Z]{2,3}[-_]\d{3}[a-z]?\<close>.
  \<^verbatim>\<open>messages[code] = ...\<close> replaces the value of a key already present.
\<close>

definition normalize_id :: "string \<Rightarrow> string" where
  "normalize_id s = replace_char CHR ''_'' CHR ''-'' s"

definition category_of :: "string \<Rightarrow> string" where
  "category_of c = split_first CHR ''-'' c"

definition parse_message_ids :: "string list \<Rightarrow> (string, MessageInfo) dict" where
  "parse_message_ids captures =
     fold (\<lambda>g messages.
             (let c = normalize_id g; cat = category_of c
              in AList.update c (new_MessageInfo c cat) messages))
          captures []"

text \<open>
  \<^verbatim>\<open>parse_severities\<close> turns an enum name into a code with
  \<^verbatim>\<open>re.sub(r'^([A-Z]+)_(\d+)(.*)', r'\1-\2\3', enum_name)\<close>: when the name starts with
  one or more capitals, an underscore and a digit, that underscore becomes a hyphen;
  otherwise the name is returned unchanged. The input is the list of captured pairs
  (enum name, severity), in line order.
\<close>

definition enum_name_to_code :: "string \<Rightarrow> string" where
  "enum_name_to_code enum_name =
     (let p = takeWhile is_upper enum_name; r = dropWhile is_upper enum_name
      in if p \<noteq> [] \<and> (case r of u # d # _ \<Rightarrow> u = CHR ''_'' \<and> is_digit d | _ \<Rightarrow> False)
         then p @ ''-'' @ tl r
         else enum_name)"

definition parse_severities ::
  "(string \<times> string) list \<Rightarrow> (string, MessageInfo) dict \<Rightarrow> (string, MessageInfo) dict"
where
  "parse_severities captures messages =
     fold (\<lambda>(enum_name, sev) msgs.
             (let c = enum_name_to_code enum_name
              in if dict_in c msgs then AList.map_entry c (\<lambda>m. m\<lparr>severity := sev\<rparr>) msgs
                 else msgs))
          captures messages"

subsection \<open>Scanners\<close>

text \<open>
  \<^verbatim>\<open>find_java_emitters\<close>. A Java file of the reference is given by its name, its stem
  and the captures of \<^verbatim>\<open>MessageId\.([A-Z_0-9a-z]+)\<close> in its text, in order of
  occurrence (\<open>None\<close> when reading the file raised). The files come in the order in which
  \<^verbatim>\<open>java_dir.rglob("*.java")\<close> yields them; \<open>None\<close> for the list stands for a missing
  source directory. The counter of the function is only printed and is left out.
\<close>

record JavaFile =
  file_name :: string
  stem :: string
  refs :: "string list option"

definition build_enum_to_code :: "(string, MessageInfo) dict \<Rightarrow> (string, string) dict" where
  "build_enum_to_code messages =
     fold (\<lambda>c d. AList.update (replace_char CHR ''-'' CHR ''_'' c) c d) (dict_keys messages) []"

definition record_emitter :: "string \<Rightarrow> MessageInfo \<Rightarrow> MessageInfo" where
  "record_emitter short_name m =
     (if short_name \<in> set (java_files m) then m
      else m\<lparr>java_files := java_files m @ [short_name]\<rparr>)"

definition scan_match ::
  "(string, string) dict \<Rightarrow> string \<Rightarrow> string \<Rightarrow> (string, MessageInfo) dict \<Rightarrow> (string, MessageInfo) dict"
where
  "scan_match enum_to_code short_name enum_name messages =
     (case map_of enum_to_code enum_name of
        None \<Rightarrow> messages
      | Some c \<Rightarrow> AList.map_entry c (record_emitter short_name) messages)"

definition scan_file ::
  "(string, string) dict \<Rightarrow> JavaFile \<Rightarrow> (string, MessageInfo) dict \<Rightarrow> (string, MessageInfo) dict"
where
  "scan_file enum_to_code java_file messages =
     (if file_name java_file \<in> {''MessageId.java'', ''DefaultSeverities.java''} then messages
      else case refs java_file of
             None \<Rightarrow> messages
           | Some ms \<Rightarrow> fold (scan_match enum_to_code (stem java_file)) ms messages)"

definition find_java_emitters ::
  "JavaFile list option \<Rightarrow> (string, MessageInfo) dict \<Rightarrow> (string, MessageInfo) dict"
where
  "find_java_emitters java_dir messages =
     (case java_dir of
        None \<Rightarrow> messages
      | Some files \<Rightarrow> fold (scan_file (build_enum_to_code messages)) files messages)"

text \<open>
  \<^verbatim>\<open>find_go_implementations\<close> and \<^verbatim>\<open>find_bdd_coverage\<close> collect the matched codes
  into a set and then mark every message whose code is in it. The set is given by the list
  of matched codes; \<open>None\<close> for the feature codes stands for a missing features directory.
\<close>

definition find_go_implementations ::
  "string list \<Rightarrow> (string, MessageInfo) dict \<Rightarrow> (string, MessageInfo) dict"
where
  "find_go_implementations go_codes messages =
     fold (\<lambda>c msgs. if c \<in> set go_codes
                     then AList.map_entry c (\<lambda>m. m\<lparr>in_go_code := True\<rparr>) msgs else msgs)
          (dict_keys messages) messages"

definition find_bdd_coverage ::
  "string list option \<Rightarrow> (string, MessageInfo) dict \<Rightarrow> (string, MessageInfo) dict"
where
  "find_bdd_coverage features messages =
     (case features of
        None \<Rightarrow> messages
      | Some bdd_codes \<Rightarrow>
          fold (\<lambda>c msgs. if c \<in> set bdd_codes
                          then AList.map_entry c (\<lambda>m. m\<lparr>in_bdd_tests := True\<rparr>) msgs else msgs)
               (dict_keys messages) messages)"

subsection \<open>Report generation\<close>

record AuditResult =
  epubcheck_commit :: string
  total_codes :: int
  implemented :: int
  tested :: int
  suppressed :: int
  wontfix :: int
  missing :: int
  partial :: int
  messages :: "MessageInfo list"

definition new_AuditResult :: "string \<Rightarrow> AuditResult" where
  "new_AuditResult commit =
     \<lparr>epubcheck_commit = commit, total_codes = 0, implemented = 0, tested = 0, suppressed = 0,
      wontfix = 0, missing = 0, partial = 0, messages = []\<rparr>"

text \<open>The body of the loop of \<^verbatim>\<open>generate_report\<close>: an \<^verbatim>\<open>if/elif\<close> chain with no final
  \<^verbatim>\<open>else\<close>, then the independent count of tested messages.\<close>

definition count_message :: "MessageInfo \<Rightarrow> AuditResult \<Rightarrow> AuditResult" where
  "count_message msg result =
     (let st = status msg;
          result1 =
            (if st = ''implemented'' then result\<lparr>implemented := implemented result + 1\<rparr>
             else if st = ''suppressed'' then result\<lparr>suppressed := suppressed result + 1\<rparr>
             else if st = ''wontfix'' then result\<lparr>wontfix := wontfix result + 1\<rparr>
             else if st = ''partial'' then result\<lparr>partial := partial result + 1\<rparr>
             else if st = ''missing'' then result\<lparr>missing := missing result + 1\<rparr>
             else result)
      in if in_bdd_tests msg then result1\<lparr>tested := tested result1 + 1\<rparr> else result1)"

definition generate_report :: "(string, MessageInfo) dict \<Rightarrow> string \<Rightarrow> AuditResult" where
  "generate_report msgs commit =
     (let sorted_messages = sort_key code (dict_values msgs);
          result = (new_AuditResult commit)
                     \<lparr>total_codes := int (length msgs), messages := sorted_messages\<rparr>
      in fold count_message sorted_messages result)"

text \<open>The number of messages of a list with a given status, for stating what the counters
  of the report hold.\<close>

definition count_status :: "string \<Rightarrow> MessageInfo list \<Rightarrow> int" where
  "count_status st ms = int (length (filter (\<lambda>m. status m = st) ms))"

text \<open>A run with one message and one override whose status is \<open>note\<close>.\<close>

definition note_override_report :: AuditResult where
  "note_override_report =
     generate_report
       (apply_overrides [(''ACC-001'', [(''status'', ''note''), (''note'', ''see issue'')])]
          [(''ACC-001'', new_MessageInfo ''ACC-001'' ''ACC'')])
       ''0123abc''"

text \<open>A run with one message that has no override, is not suppressed and is not found in
  the Go source.\<close>

definition one_missing_report :: AuditResult where
  "one_missing_report =
     generate_report (apply_overrides [] [(''OPF-001'', new_MessageInfo ''OPF-001'' ''OPF'')])
       ''0123abc''"

text \<open>A small override table and message set on which the theorems below are run.\<close>

definition example_overrides :: "(string, (string, string) dict) dict" where
  "example_overrides = [(''ACC-001'', [(''status'', ''wontfix''), (''note'', ''too niche'')])]"

definition example_messages :: "(string, MessageInfo) dict" where
  "example_messages =
     [(''OPF-001'', (new_MessageInfo ''OPF-001'' ''OPF'')\<lparr>severity := ''ERROR'', in_go_code := True\<rparr>),
      (''ACC-001'', (new_MessageInfo ''ACC-001'' ''ACC'')\<lparr>severity := ''USAGE''\<rparr>)]"

subsection \<open>The machine-readable report\<close>

text \<open>
  The value handed to \<^verbatim>\<open>json.dump\<close>. Objects keep the insertion order of their keys, so
  the serialized text is a function of this value.
\<close>

datatype json =
  JString string
| JInt int
| JBool bool
| JArray "json list"
| JObject "(string \<times> json) list"

definition message_json :: "MessageInfo \<Rightarrow> json" where
  "message_json msg =
     JObject
       [(''code'', JString (code msg)),
        (''severity'', JString (severity msg)),
        (''message'', JString (message_text msg)),
        (''category'', JString (category msg)),
        (''java_files'', JArray (map JString (java_files msg))),
        (''status'', JString (status msg)),
        (''in_go_code'', JBool (in_go_code msg)),
        (''in_bdd_tests'', JBool (in_bdd_tests msg)),
        (''note'', JString (override_note msg))]"

definition summary_json :: "AuditResult \<Rightarrow> (string \<times> json) list" where
  "summary_json result =
     [(''total'', JInt (total_codes result)),
      (''implemented'', JInt (implemented result)),
      (''tested_bdd'', JInt (tested result)),
      (''suppressed'', JInt (suppressed result)),
      (''wontfix'', JInt (wontfix result)),
      (''partial'', JInt (partial result)),
      (''missing'', JInt (missing result))]"

definition print_json_report :: "AuditResult \<Rightarrow> json" where
  "print_json_report result =
     JObject
       [(''epubcheck_commit'', JString (epubcheck_commit result)),
        (''summary'', JObject (summary_json result)),
        (''messages'', JArray (map message_json (messages result)))]"

subsection \<open>The run from the source scan to the report\<close>

text \<open>
  Steps 5 to 9 of \<^verbatim>\<open>main\<close>: the scan of the Java sources, of the Go sources and of the
  feature files, the overrides, and the report. The messages come from steps 2 to 4.
\<close>

definition main_report ::
  "JavaFile list option \<Rightarrow> string list \<Rightarrow> string list option
     \<Rightarrow> (string, (string, string) dict) dict \<Rightarrow> string \<Rightarrow> (string, MessageInfo) dict
     \<Rightarrow> AuditResult"
where
  "main_report java_dir go_codes features known_overrides commit msgs =
     generate_report
       (apply_overrides known_overrides
          (find_bdd_coverage features
             (find_go_implementations go_codes (find_java_emitters java_dir msgs))))
       commit"

text \<open>
  For comparing two runs: a message and a report with every list of origin locations put
  in sorted order; and what the scan of the Java sources does to the record of one code,
  match by match and file by file.
\<close>

definition sort_java_files :: "MessageInfo \<Rightarrow> MessageInfo" where
  "sort_java_files m = m\<lparr>java_files := sort (java_files m)\<rparr>"

definition sorted_origins :: "AuditResult \<Rightarrow> AuditResult" where
  "sorted_origins result = result\<lparr>messages := map sort_java_files (messages result)\<rparr>"

definition sort_entries :: "(string, MessageInfo) dict \<Rightarrow> (string, MessageInfo) dict" where
  "sort_entries msgs = map (\<lambda>(k, m). (k, sort_java_files m)) msgs"

definition entry_match :: "(string, string) dict \<Rightarrow> string \<Rightarrow> string \<Rightarrow> string \<Rightarrow> MessageInfo \<Rightarrow> MessageInfo" where
  "entry_match enum_to_code short_name k enum_name m =
     (if map_of enum_to_code enum_name = Some k then record_emitter short_name m else m)"

definition entry_file :: "(string, string) dict \<Rightarrow> string \<Rightarrow> JavaFile \<Rightarrow> MessageInfo \<Rightarrow> MessageInfo" where
  "entry_file enum_to_code k java_file m =
     (if file_name java_file \<in> {''MessageId.java'', ''DefaultSeverities.java''} then m
      else case refs java_file of
             None \<Rightarrow> m
           | Some ms \<Rightarrow> fold (entry_match enum_to_code (stem java_file) k) ms m)"

definition emits :: "(string, string) dict \<Rightarrow> string \<Rightarrow> JavaFile \<Rightarrow> bool" where
  "emits enum_to_code k java_file =
     (file_name java_file \<notin> {''MessageId.java'', ''DefaultSeverities.java''}
      \<and> (case refs java_file of
            None \<Rightarrow> False
          | Some ms \<Rightarrow> \<exists>e\<in>set ms. map_of enum_to_code e = Some k))"

text \<open>Two Java files that both refer to \<^verbatim>\<open>MessageId.OPF_001\<close>, and the two orders in which
  a directory traversal can yield them.\<close>

definition opf_checker :: JavaFile where
  "opf_checker =
     \<lparr>file_name = ''OPFChecker.java'', stem = ''OPFChecker'',
      refs = Some [''OPF_001'', ''OPF_002'', ''OPF_001'']\<rparr>"

definition xref_checker :: JavaFile where
  "xref_checker =
     \<lparr>file_name = ''XRefChecker.java'', stem = ''XRefChecker'', refs = Some [''OPF_001'']\<rparr>"

definition run_with_files :: "JavaFile list \<Rightarrow> AuditResult" where
  "run_with_files files =
     main_report (Some files) [''OPF-001''] (Some []) example_overrides ''0123abc''
       (parse_message_ids [''OPF_001'', ''ACC-001''])"

subsection \<open>The human-readable report\<close>

text \<open>
  \<^verbatim>\<open>str(n)\<close> for an integer, and the two paddings used by the format specifications
  \<^verbatim>\<open>{x:<8}\<close> and \<^verbatim>\<open>{x:>5}\<close>.
\<close>

definition digit_char :: "nat \<Rightarrow> char" where
  "digit_char d = char_of (48 + d)"

function str_nat :: "nat \<Rightarrow> string" where
  "str_nat n = (if n < 10 then [digit_char n] else str_nat (n div 10) @ [digit_char (n mod 10)])"
  by pat_completeness auto
termination
  by (relation "measure id") auto

declare str_nat.simps [simp del]

definition str_int :: "int \<Rightarrow> string" where
  "str_int i = (if i < 0 then ''-'' @ str_nat (nat (- i)) else str_nat (nat i))"

definition ljust :: "nat \<Rightarrow> string \<Rightarrow> string" where
  "ljust w s = s @ replicate (w - length s) CHR '' ''"

definition rjust :: "nat \<Rightarrow> string \<Rightarrow> string" where
  "rjust w s = replicate (w - length s) CHR '' '' @ s"

fun join :: "string \<Rightarrow> string list \<Rightarrow> string" where
  "join sep [] = []"
| "join sep [x] = x"
| "join sep (x # y # ys) = x @ sep @ join sep (y # ys)"

datatype py_error = KeyError string

definition dict_incr :: "string \<Rightarrow> (string, int) dict \<Rightarrow> py_error + (string, int) dict" where
  "dict_incr k d =
     (if dict_in k d then Inr (AList.map_entry k (\<lambda>n. n + 1) d) else Inl (KeyError k))"

definition new_category_counts :: "(string, int) dict" where
  "new_category_counts =
     [(''implemented'', 0), (''missing'', 0), (''suppressed'', 0),
      (''wontfix'', 0), (''partial'', 0), (''total'', 0)]"

text \<open>The loop that groups by category; \<^verbatim>\<open>categories[cat][msg.status] += 1\<close> raises
  \<^verbatim>\<open>KeyError\<close> for a status that is not one of the six keys.\<close>

fun count_categories ::
  "MessageInfo list \<Rightarrow> (string, (string, int) dict) dict
     \<Rightarrow> py_error + (string, (string, int) dict) dict"
where
  "count_categories [] categories = Inr categories"
| "count_categories (msg # rest) categories =
     (let cat = category msg;
          categories1 = (if dict_in cat categories then categories
                         else categories @ [(cat, new_category_counts)])
      in case dict_incr ''total'' (dict_get categories1 cat []) of
           Inl e \<Rightarrow> Inl e
         | Inr c1 \<Rightarrow>
             (case dict_incr (status msg) c1 of
                Inl e \<Rightarrow> Inl e
              | Inr c2 \<Rightarrow> count_categories rest (AList.update cat c2 categories1)))"

definition category_row :: "string \<Rightarrow> (string, int) dict \<Rightarrow> string" where
  "category_row cat c =
     ''  '' @ ljust 8 cat @ '' '' @ rjust 5 (str_int (dict_get c ''total'' 0))
       @ '' '' @ rjust 5 (str_int (dict_get c ''implemented'' 0))
       @ '' '' @ rjust 5 (str_int (dict_get c ''missing'' 0))
       @ '' '' @ rjust 5 (str_int (dict_get c ''suppressed'' 0))
       @ '' '' @ rjust 5 (str_int (dict_get c ''wontfix'' 0))
       @ '' '' @ rjust 5 (str_int (dict_get c ''partial'' 0))"

definition summary_lines :: "AuditResult \<Rightarrow> string list" where
  "summary_lines result =
     [[],
      replicate 72 CHR ''='',
      ''Tier 3: Java Code Check Coverage Report'',
      replicate 72 CHR ''='',
      ''epubcheck commit: '' @ epubcheck_commit result,
      [],
      ''Total message IDs defined:  '' @ str_int (total_codes result),
      ''  Implemented:              '' @ str_int (implemented result),
      ''  Tested (BDD):             '' @ str_int (tested result),
      ''  Suppressed by epubcheck:  '' @ str_int (suppressed result),
      ''  Wontfix (too niche):      '' @ str_int (wontfix result),
      ''  Partial:                  '' @ str_int (partial result),
      ''  MISSING:                  '' @ str_int (missing result),
      []]"

definition category_lines :: "(string, (string, int) dict) dict \<Rightarrow> string list" where
  "category_lines categories =
     [''Coverage by category:'',
      ''  '' @ ljust 8 ''Category'' @ '' '' @ rjust 5 ''Total'' @ '' '' @ rjust 5 ''Impl''
        @ '' '' @ rjust 5 ''Miss'' @ '' '' @ rjust 5 ''Supp'' @ '' '' @ rjust 5 ''Skip''
        @ '' '' @ rjust 5 ''Part'',
      ''  '' @ ljust 8 ''--------'' @ '' '' @ rjust 5 ''-----'' @ '' '' @ rjust 5 ''-----''
        @ '' '' @ rjust 5 ''-----'' @ '' '' @ rjust 5 ''-----'' @ '' '' @ rjust 5 ''-----''
        @ '' '' @ rjust 5 ''-----'']
     @ map (\<lambda>cat. category_row cat (dict_get categories cat [])) (sort (dict_keys categories))
     @ [[]]"

definition missing_entry_lines :: "MessageInfo \<Rightarrow> string list" where
  "missing_entry_lines msg =
     (let java_info = (if java_files msg \<noteq> [] then join '', '' (take 3 (java_files msg))
                       else ''?'');
          text = (if message_text msg \<noteq> [] then take 80 (message_text msg) else [])
      in [''    '' @ ljust 12 (code msg) @ '' Java: '' @ java_info]
         @ (if text \<noteq> [] then [''    '' @ ljust 12 [] @ '' Msg:  '' @ text] else []))"

definition severity_or_unknown :: "MessageInfo \<Rightarrow> string" where
  "severity_or_unknown msg = (if severity msg \<noteq> [] then severity msg else ''UNKNOWN'')"

definition severity_lines :: "MessageInfo list \<Rightarrow> string \<Rightarrow> string list" where
  "severity_lines missing_msgs sev =
     (let msgs = filter (\<lambda>m. severity_or_unknown m = sev) missing_msgs
      in if msgs = [] then []
         else [''  ['' @ sev @ ''] ('' @ str_int (int (length msgs)) @ '' codes)'']
              @ concat (map missing_entry_lines (sort_key code msgs))
              @ [[]])"

definition missing_lines :: "AuditResult \<Rightarrow> string list" where
  "missing_lines result =
     (let missing_msgs = filter (\<lambda>m. status m = ''missing'') (messages result)
      in if missing_msgs = [] then []
         else [replicate 72 CHR ''-'',
               ''MISSING CHECKS ('' @ str_int (int (length missing_msgs)) @ '' gaps to evaluate)'',
               replicate 72 CHR ''-'',
               []]
              @ concat (map (severity_lines missing_msgs)
                          [''FATAL'', ''ERROR'', ''WARNING'', ''USAGE'', ''INFO'', ''UNKNOWN'']))"

definition partial_lines :: "AuditResult \<Rightarrow> string list" where
  "partial_lines result =
     (let partial_msgs = filter (\<lambda>m. status m = ''partial'') (messages result)
      in if partial_msgs = [] then []
         else [replicate 72 CHR ''-'',
               ''PARTIAL CHECKS ('' @ str_int (int (length partial_msgs)) @ '' need completion)'',
               replicate 72 CHR ''-'']
              @ map (\<lambda>msg. ''  '' @ ljust 12 (code msg) @ '' '' @ override_note msg) partial_msgs
              @ [[]])"

definition untested_lines :: "AuditResult \<Rightarrow> string list" where
  "untested_lines result =
     (let untested = filter (\<lambda>m. status m = ''implemented'' \<and> \<not> in_bdd_tests m
                                   \<and> severity m \<notin> {''SUPPRESSED'', []}) (messages result)
      in if untested = [] then []
         else [replicate 72 CHR ''-'',
               ''IMPLEMENTED BUT NOT IN BDD TESTS ('' @ str_int (int (length untested)) @ '')'',
               replicate 72 CHR ''-'']
              @ map (\<lambda>msg. ''  '' @ ljust 12 (code msg) @ '' ['' @ severity msg @ '']  ''
                              @ (if message_text msg \<noteq> [] then take 60 (message_text msg)
                                 else []))
                    (sort_key code untested)
              @ [[]])"

text \<open>
  \<^verbatim>\<open>print_text_report\<close>: the lines written to standard output, and the exception that
  ended the function, if any. The summary block is printed before the category loop runs.
\<close>

definition print_text_report :: "AuditResult \<Rightarrow> bool \<Rightarrow> string list \<times> py_error option" where
  "print_text_report result summary_only =
     (case count_categories (messages result) [] of
        Inl e \<Rightarrow> (summary_lines result, Some e)
      | Inr categories \<Rightarrow>
          (summary_lines result @ category_lines categories
             @ (if summary_only then []
                else missing_lines result @ partial_lines result @ untested_lines result),
           None))"

text \<open>
  Reading a count back from the machine-readable report: the integer under a key of the
  \<^verbatim>\<open>summary\<close> object. The list pairs the label of each count line of the human-readable
  report with the key of the same count in the machine-readable one.
\<close>

definition json_member :: "json \<Rightarrow> string \<Rightarrow> json option" where
  "json_member j k = (case j of JObject kvs \<Rightarrow> map_of kvs k | _ \<Rightarrow> None)"

definition json_count :: "json \<Rightarrow> string \<Rightarrow> int option" where
  "json_count j k =
     (case json_member j ''summary'' of
        None \<Rightarrow> None
      | Some s \<Rightarrow> (case json_member s k of Some (JInt n) \<Rightarrow> Some n | _ \<Rightarrow> None))"

definition count_labels :: "(string \<times> string) list" where
  "count_labels =
     [(''Total message IDs defined:  '', ''total''),
      (''  Implemented:              '', ''implemented''),
      (''  Tested (BDD):             '', ''tested_bdd''),
      (''  Suppressed by epubcheck:  '', ''suppressed''),
      (''  Wontfix (too niche):      '', ''wontfix''),
      (''  Partial:                  '', ''partial''),
      (''  MISSING:                  '', ''missing'')]"

subsection \<open>Exit status of the enumerated-identity audit\<close>

text \<open>
  The last statement of \<^verbatim>\<open>main\<close> in java-audit.py, under the comment
  \<^verbatim>\<open># Exit with non-zero if there are missing checks\<close>, prints a line on standard error and
  returns; a Python process whose main function returns exits with status 0. The result
  is the text written to standard error and the exit status.
\<close>

definition main_exit :: "AuditResult \<Rightarrow> string list \<times> int" where
  "main_exit result =
     (if missing result > 0
      then ([[CHR 0x0A] @ str_int (missing result) @ '' missing checks found.''], 0)
      else ([], 0))"

section \<open>schematron-audit.py: the declarative-assertion audit\<close>

text \<open>
  The dataclasses \<^verbatim>\<open>SchematronCheck\<close> and \<^verbatim>\<open>AuditResult\<close> of schematron-audit.py. The
  fields of this second \<^verbatim>\<open>AuditResult\<close> carry the prefix \<open>sch_\<close>, and the fields
  \<^verbatim>\<open>file\<close> and \<^verbatim>\<open>context\<close> are \<open>sch_file\<close> and \<open>rule_context\<close>, to keep them
  apart from the names above and from the keywords of the theory language.
\<close>

record SchematronCheck =
  sch_file :: string
  pattern_id :: string
  rule_context :: string
  check_type :: string
  test_xpath :: string
  message :: string
  is_abstract_instance :: bool
  abstract_pattern :: string
  params :: "(string, string) dict"

record SchAuditResult =
  sch_total_patterns :: int
  sch_total_checks :: int
  sch_implemented :: int
  sch_partial :: int
  sch_missing :: int
  sch_missing_checks :: "SchematronCheck list"
  sch_partial_checks :: "SchematronCheck list"

definition new_SchAuditResult :: SchAuditResult where
  "new_SchAuditResult =
     \<lparr>sch_total_patterns = 0, sch_total_checks = 0, sch_implemented = 0, sch_partial = 0,
      sch_missing = 0, sch_missing_checks = [], sch_partial_checks = []\<rparr>"

text \<open>\<^verbatim>\<open>known["status"]\<close> raises \<^verbatim>\<open>KeyError\<close> when the entry has no such key.\<close>

definition status_of :: "(string, string) dict \<Rightarrow> py_error + string" where
  "status_of known =
     (case map_of known ''status'' of None \<Rightarrow> Inl (KeyError ''status'') | Some s \<Rightarrow> Inr s)"

text \<open>
  \<^verbatim>\<open>audit\<close>, with the registry \<^verbatim>\<open>KNOWN_CHECKS\<close> as a parameter. The state of the loop is
  the set of pattern IDs seen so far and the result under construction.
\<close>

fun audit_loop ::
  "(string, (string, string) dict) dict \<Rightarrow> SchematronCheck list \<Rightarrow> string set \<Rightarrow> SchAuditResult
     \<Rightarrow> py_error + SchAuditResult"
where
  "audit_loop known_checks [] seen_patterns result = Inr result"
| "audit_loop known_checks (c # checks) seen_patterns result =
     (let pid = pattern_id c;
          result1 = (if pid \<notin> seen_patterns
                     then result\<lparr>sch_total_patterns := sch_total_patterns result + 1\<rparr>
                     else result);
          seen1 = insert pid seen_patterns;
          result2 = result1\<lparr>sch_total_checks := sch_total_checks result1 + 1\<rparr>
      in case map_of known_checks pid of
           None \<Rightarrow>
             audit_loop known_checks checks seen1
               (result2\<lparr>sch_missing := sch_missing result2 + 1,
                        sch_missing_checks := sch_missing_checks result2 @ [c]\<rparr>)
         | Some known \<Rightarrow>
             (case status_of known of
                Inl e \<Rightarrow> Inl e
              | Inr st \<Rightarrow>
                  if st = ''partial''
                  then audit_loop known_checks checks seen1
                         (result2\<lparr>sch_partial := sch_partial result2 + 1,
                                  sch_partial_checks := sch_partial_checks result2 @ [c]\<rparr>)
                  else audit_loop known_checks checks seen1
                         (result2\<lparr>sch_implemented := sch_implemented result2 + 1\<rparr>)))"

definition audit ::
  "(string, (string, string) dict) dict \<Rightarrow> SchematronCheck list \<Rightarrow> py_error + SchAuditResult"
where
  "audit known_checks checks = audit_loop known_checks checks {} new_SchAuditResult"

text \<open>The end of \<^verbatim>\<open>main\<close> in schematron-audit.py: \<^verbatim>\<open>sys.exit(2)\<close> when checks are
  missing, status 0 otherwise.\<close>

definition sch_main_exit :: "SchAuditResult \<Rightarrow> int" where
  "sch_main_exit result = (if sch_missing result > 0 then 2 else 0)"

text \<open>
  What the registry records for the pattern of a check: \<open>None\<close> when the pattern ID is not
  a key of the registry (or its entry has no status), otherwise the status of its entry.
  A check built from a pattern ID alone serves for examples.
\<close>

definition registry_status ::
  "(string, (string, string) dict) dict \<Rightarrow> SchematronCheck \<Rightarrow> string option"
where
  "registry_status known_checks c =
     (case map_of known_checks (pattern_id c) of
        None \<Rightarrow> None
      | Some known \<Rightarrow> map_of known ''status'')"

definition assert_check :: "string \<Rightarrow> SchematronCheck" where
  "assert_check pid =
     \<lparr>sch_file = ''package-30.sch'', pattern_id = pid, rule_context = ''opf:package'',
      check_type = ''assert'', test_xpath = ''@unique-identifier'', message = ''required'',
      is_abstract_instance = False, abstract_pattern = [], params = []\<rparr>"

definition example_registry :: "(string, (string, string) dict) dict" where
  "example_registry =
     [(''opf.uid'', [(''status'', ''implemented''), (''go'', ''opf.go'')]),
      (''opf.datanav.prop'', [(''status'', ''partial''), (''go'', ''opf.go'')]),
      (''ocf.uid'', [(''status'', ''wontfix''), (''note'', ''multi-rendition'')])]"

definition example_checks :: "SchematronCheck list" where
  "example_checks =
     [assert_check ''opf.uid'', assert_check ''ocf.uid'', assert_check ''opf.datanav.prop'',
      assert_check ''opf.unknown'', assert_check ''ocf.uid'']"

section \<open>relaxng-audit.py: the structural-grammar audit\<close>

subsection \<open>Element extraction\<close>

record ElementDef =
  name :: string
  source_file :: string
  content_model :: string
  content_category :: string
  attrs :: "string list"
  content_detail :: string
  is_void :: bool



fun contains :: "string \<Rightarrow> string \<Rightarrow> bool" where
  "contains sub [] = (sub = [])"
| "contains sub (c # cs) = (take (length sub) (c # cs) = sub \<or> contains sub cs)"



























subsection \<open>The knowledge base\<close>

text \<open>
  The Python sets are written as lists without repetition (a set has no order; the code
  only sorts them or tests membership), \<^verbatim>\<open>RESTRICTED_CHILDREN\<close> as a dictionary of such
  lists.
\<close>

definition PHRASING_CONTENT_PARENTS :: "string list" where
  "PHRASING_CONTENT_PARENTS =
     [''p'', ''h1'', ''h2'', ''h3'', ''h4'', ''h5'', ''h6'', ''pre'', ''span'', ''em'',
      ''strong'', ''small'', ''mark'', ''abbr'', ''dfn'', ''i'', ''b'', ''s'', ''u'',
      ''code'', ''var'', ''samp'', ''kbd'', ''sup'', ''sub'', ''q'', ''cite'', ''bdo'',
      ''bdi'', ''dt'', ''label'', ''legend'', ''summary'', ''figcaption'', ''a'', ''time'',
      ''data'', ''output'']"

definition VOID_ELEMENTS :: "string list" where
  "VOID_ELEMENTS =
     [''br'', ''hr'', ''img'', ''input'', ''link'', ''meta'', ''area'', ''base'', ''col'',
      ''embed'', ''param'', ''source'', ''track'', ''wbr'']"

definition RESTRICTED_CHILDREN :: "(string, string list) dict" where
  "RESTRICTED_CHILDREN =
     [(''ul'', [''li'']),
      (''ol'', [''li'']),
      (''dl'', [''dt'', ''dd'', ''div'']),
      (''table'', [''caption'', ''colgroup'', ''thead'', ''tbody'', ''tfoot'', ''tr'']),
      (''thead'', [''tr'']),
      (''tbody'', [''tr'']),
      (''tfoot'', [''tr'']),
      (''tr'', [''td'', ''th'']),
      (''colgroup'', [''col'']),
      (''select'', [''option'', ''optgroup'']),
      (''optgroup'', [''option'']),
      (''hgroup'', [''h1'', ''h2'', ''h3'', ''h4'', ''h5'', ''h6'', ''p'']),
      (''ruby'', [''rb'', ''rt'', ''rtc'', ''rp'']),
      (''picture'', [''source'', ''img'']),
      (''datalist'', [''option''])]"

subsection \<open>Gap analysis\<close>

text \<open>
  The dataclass \<^verbatim>\<open>GapItem\<close>; its fields \<^verbatim>\<open>category\<close> and \<^verbatim>\<open>note\<close> are \<open>gap_category\<close>
  and \<open>gap_note\<close> here, \<open>category\<close> being a field of \<open>MessageInfo\<close> and \<open>note\<close> a keyword
  of the theory language.
\<close>

record GapItem =
  gap_category :: string
  description :: string
  priority :: string
  schema_source :: string
  affected_elements :: "string list"
  epubverify_status :: string
  go_file :: string
  gap_note :: string

text \<open>
  Two tests on a registry entry recur in \<^verbatim>\<open>analyze_gaps\<close>:
  \<^verbatim>\<open>KNOWN_CHECKS.get(k, {}).get("status") == "implemented"\<close>, which never raises, and
  \<^verbatim>\<open>not known or known["status"] != "implemented"\<close>, which raises for a non-empty entry
  without a status (an empty dictionary is falsy).
\<close>

definition get_implemented :: "(string, (string, string) dict) dict \<Rightarrow> string \<Rightarrow> bool" where
  "get_implemented known_checks k =
     (map_of (dict_get known_checks k []) ''status'' = Some ''implemented'')"

definition not_implemented :: "(string, string) dict option \<Rightarrow> py_error + bool" where
  "not_implemented known =
     (case known of
        None \<Rightarrow> Inr True
      | Some k \<Rightarrow>
          if k = [] then Inr True
          else (case status_of k of Inl e \<Rightarrow> Inl e | Inr st \<Rightarrow> Inr (st \<noteq> ''implemented'')))"

text \<open>Running a loop body that appends to \<^verbatim>\<open>gaps\<close> over a list; the first exception ends
  it.\<close>

fun gather :: "('a \<Rightarrow> py_error + 'b list) \<Rightarrow> 'a list \<Rightarrow> py_error + 'b list" where
  "gather f [] = Inr []"
| "gather f (x # xs) =
     (case f x of
        Inl e \<Rightarrow> Inl e
      | Inr ys \<Rightarrow> (case gather f xs of Inl e \<Rightarrow> Inl e | Inr zs \<Rightarrow> Inr (ys @ zs)))"

text \<open>Step 1: phrasing-only parents.\<close>

definition phrasing_item :: "string \<Rightarrow> string \<Rightarrow> string \<Rightarrow> GapItem" where
  "phrasing_item elem st go =
     \<lparr>gap_category = ''content-model'',
      description = ''<'' @ elem @ ''> allows only phrasing content (text and inline elements). ''
        @ ''Block elements like <div>, <p>, <table>, <ul> must not appear inside <'' @ elem
        @ ''>.'',
      priority = (if elem \<in> {''p'', ''h1'', ''h2'', ''h3'', ''h4'', ''h5'', ''h6'', ''span''}
                  then ''high'' else ''medium''),
      schema_source = (if elem \<in> {''p'', ''pre''} then ''mod/html5/block.rnc''
                       else ''mod/html5/phrase.rnc''),
      affected_elements = [elem],
      epubverify_status = st,
      go_file = go,
      gap_note = []\<rparr>"

definition phrasing_gap ::
  "(string, (string, string) dict) dict \<Rightarrow> bool \<Rightarrow> string \<Rightarrow> py_error + GapItem list"
where
  "phrasing_gap known_checks general_implemented elem =
     (case map_of known_checks (elem @ ''-phrasing-only'') of
        None \<Rightarrow>
          Inr (if general_implemented then [] else [phrasing_item elem ''missing'' []])
      | Some known \<Rightarrow>
          if known = []
          then Inr (if general_implemented then [] else [phrasing_item elem ''missing'' []])
          else (case status_of known of
                  Inl e \<Rightarrow> Inl e
                | Inr st \<Rightarrow>
                    if st = ''implemented'' \<or> general_implemented then Inr []
                    else Inr [phrasing_item elem st (dict_get known ''go'' [])]))"

definition phrasing_gaps :: "(string, (string, string) dict) dict \<Rightarrow> py_error + GapItem list" where
  "phrasing_gaps known_checks =
     gather (phrasing_gap known_checks (get_implemented known_checks ''block-in-phrasing''))
       (sort PHRASING_CONTENT_PARENTS)"

text \<open>Step 2: void elements.\<close>

definition void_gaps :: "(string, (string, string) dict) dict \<Rightarrow> py_error + GapItem list" where
  "void_gaps known_checks =
     (case not_implemented (map_of known_checks ''void-elements-no-children'') of
        Inl e \<Rightarrow> Inl e
      | Inr gap \<Rightarrow>
          Inr (if gap
               then [\<lparr>gap_category = ''content-model'',
                      description = ''Void elements cannot have children. Elements like <br>, <hr>, <img>, ''
                        @ ''<input>, <meta>, <link> must be empty.'',
                      priority = ''medium'',
                      schema_source = ''mod/html5/phrase.rnc'',
                      affected_elements = sort VOID_ELEMENTS,
                      epubverify_status = ''missing'',
                      go_file = [],
                      gap_note = []\<rparr>]
               else []))"

text \<open>Step 3: restricted children. The inner loop over the registry stops at the first
  entry whose key contains the parent's name and whose status is implemented.\<close>

fun parent_checked :: "string \<Rightarrow> (string, (string, string) dict) dict \<Rightarrow> py_error + bool" where
  "parent_checked parent [] = Inr False"
| "parent_checked parent ((k, v) # rest) =
     (if contains parent k
      then (case status_of v of
              Inl e \<Rightarrow> Inl e
            | Inr st \<Rightarrow> if st = ''implemented'' then Inr True else parent_checked parent rest)
      else parent_checked parent rest)"

definition restricted_item :: "string \<Rightarrow> string list \<Rightarrow> GapItem" where
  "restricted_item parent allowed =
     \<lparr>gap_category = ''element-nesting'',
      description = ''<'' @ parent @ ''> can only contain: ''
        @ join '', '' (map (\<lambda>c. ''<'' @ c @ ''>'') (sort allowed)) @ ''. ''
        @ ''Other elements are not allowed as direct children.'',
      priority = (if parent \<in> {''ul'', ''ol'', ''table'', ''tr'', ''select''}
                  then ''high'' else ''medium''),
      schema_source = (if parent \<in> {''ul'', ''ol'', ''dl''} then ''mod/html5/block.rnc''
                       else ''mod/html5/tables.rnc''),
      affected_elements = [parent] @ sort allowed,
      epubverify_status = ''missing'',
      go_file = [],
      gap_note = []\<rparr>"

definition restricted_gap ::
  "(string, (string, string) dict) dict \<Rightarrow> bool \<Rightarrow> string \<times> string list
     \<Rightarrow> py_error + GapItem list"
where
  "restricted_gap known_checks restricted_children_implemented pa =
     (case pa of (parent, allowed) \<Rightarrow>
        (case (if restricted_children_implemented then Inr True
               else parent_checked parent known_checks) of
           Inl e \<Rightarrow> Inl e
         | Inr is_checked \<Rightarrow> Inr (if is_checked then [] else [restricted_item parent allowed])))"

definition restricted_gaps :: "(string, (string, string) dict) dict \<Rightarrow> py_error + GapItem list" where
  "restricted_gaps known_checks =
     gather (restricted_gap known_checks
               (get_implemented known_checks ''ul-ol-children''
                \<and> get_implemented known_checks ''tr-children''
                \<and> get_implemented known_checks ''dl-structure''))
       (sort_key fst RESTRICTED_CHILDREN)"

text \<open>Step 4: transparent content models. The dash of the description is the character
  U+2014, written here as its three bytes in UTF-8.\<close>

definition transparent_item :: "string \<Rightarrow> GapItem" where
  "transparent_item elem =
     \<lparr>gap_category = ''content-model'',
      description = ''<'' @ elem @ ''> has a transparent content model ''
        @ [CHR 0xE2, CHR 0x80, CHR 0x94] @ '' it inherits the ''
        @ ''content model of its parent. If parent allows only phrasing, ''
        @ ''<'' @ elem @ ''> must also contain only phrasing content.'',
      priority = ''low'',
      schema_source = (if elem = ''a'' then ''mod/html5/phrase.rnc'' else ''mod/html5/embed.rnc''),
      affected_elements = [elem],
      epubverify_status = ''missing'',
      go_file = [],
      gap_note = []\<rparr>"

definition transparent_gap ::
  "(string, (string, string) dict) dict \<Rightarrow> bool \<Rightarrow> string \<Rightarrow> py_error + GapItem list"
where
  "transparent_gap known_checks transparent_implemented elem =
     (if transparent_implemented then Inr []
      else (case not_implemented
                   (map_option snd
                      (find (\<lambda>kv. contains elem (fst kv) \<and> contains ''transparent'' (fst kv))
                         known_checks)) of
              Inl e \<Rightarrow> Inl e
            | Inr gap \<Rightarrow> Inr (if gap then [transparent_item elem] else [])))"

definition transparent_gaps :: "(string, (string, string) dict) dict \<Rightarrow> py_error + GapItem list" where
  "transparent_gaps known_checks =
     gather (transparent_gap known_checks (get_implemented known_checks ''a-transparent-flow''))
       [''a'', ''ins'', ''del'', ''object'', ''video'', ''audio'', ''map'']"

text \<open>Steps 5 to 8: single findings.\<close>

definition interactive_gaps :: "(string, (string, string) dict) dict \<Rightarrow> py_error + GapItem list" where
  "interactive_gaps known_checks =
     (let known_i = map_of known_checks ''interactive-in-interactive''
      in case not_implemented known_i of
           Inl e \<Rightarrow> Inl e
         | Inr gap \<Rightarrow>
             Inr (if gap
                  then [\<lparr>gap_category = ''element-nesting'',
                         description = ''Interactive elements (<a>, <button>, <input>, <select>, <textarea>, ''
                           @ ''<label>, <embed>, <iframe>) cannot be nested inside other interactive elements.'',
                         priority = ''medium'',
                         schema_source = ''mod/html5/phrase.rnc'',
                         affected_elements =
                           [''a'', ''button'', ''input'', ''select'', ''textarea'', ''label''],
                         epubverify_status =
                           (if known_i \<noteq> None \<and> known_i \<noteq> Some [] then ''partial''
                            else ''missing''),
                         go_file = ''content.go:checkNestedAnchors'',
                         gap_note = ''Only nested <a> is currently checked''\<rparr>]
                  else []))"

definition input_gaps :: "(string, (string, string) dict) dict \<Rightarrow> py_error + GapItem list" where
  "input_gaps known_checks =
     (case not_implemented (map_of known_checks ''input-type'') of
        Inl e \<Rightarrow> Inl e
      | Inr gap \<Rightarrow>
          Inr (if gap
               then [\<lparr>gap_category = ''attribute'',
                      description = ''<input> type attribute constrains which other attributes are allowed. ''
                        @ ''For example, '' @ [CHR 0x27] @ ''checked'' @ [CHR 0x27]
                        @ '' is only valid on type='' @ [CHR 0x27] @ ''checkbox'' @ [CHR 0x27]
                        @ '' and type='' @ [CHR 0x27] @ ''radio'' @ [CHR 0x27] @ ''. ''
                        @ ''The schema defines 13+ input type variants with distinct attribute sets.'',
                      priority = ''low'',
                      schema_source = ''mod/html5/web-forms.rnc'',
                      affected_elements = [''input''],
                      epubverify_status = ''missing'',
                      go_file = [],
                      gap_note = []\<rparr>]
               else []))"

definition picture_gaps :: "(string, (string, string) dict) dict \<Rightarrow> py_error + GapItem list" where
  "picture_gaps known_checks =
     (case not_implemented (map_of known_checks ''picture-img-required'') of
        Inl e \<Rightarrow> Inl e
      | Inr gap \<Rightarrow>
          Inr (if gap
               then [\<lparr>gap_category = ''content-model'',
                      description = ''<picture> must contain <source> elements followed by exactly one <img>. ''
                        @ ''The <img> must be the last child.'',
                      priority = ''low'',
                      schema_source = ''mod/html5/embed.rnc'',
                      affected_elements = [''picture'', ''source'', ''img''],
                      epubverify_status = ''missing'',
                      go_file = [],
                      gap_note = []\<rparr>]
               else []))"

definition figure_gaps :: "(string, (string, string) dict) dict \<Rightarrow> py_error + GapItem list" where
  "figure_gaps known_checks =
     (case not_implemented (map_of known_checks ''figure-figcaption-position'') of
        Inl e \<Rightarrow> Inl e
      | Inr gap \<Rightarrow>
          Inr (if gap
               then [\<lparr>gap_category = ''content-model'',
                      description = ''<figcaption> must be the first or last child of <figure>. ''
                        @ ''It cannot appear in the middle.'',
                      priority = ''low'',
                      schema_source = ''mod/html5/media.rnc'',
                      affected_elements = [''figure'', ''figcaption''],
                      epubverify_status = ''missing'',
                      go_file = [],
                      gap_note = []\<rparr>]
               else []))"

text \<open>
  \<^verbatim>\<open>analyze_gaps\<close>, with the registry \<^verbatim>\<open>KNOWN_CHECKS\<close> as a parameter. The function does
  not read its two arguments \<^verbatim>\<open>elements\<close> and \<^verbatim>\<open>content_rules\<close>. The steps run in order
  and the first exception ends the function.
\<close>

fun chain :: "(py_error + 'b list) list \<Rightarrow> py_error + 'b list" where
  "chain [] = Inr []"
| "chain (Inl e # rest) = Inl e"
| "chain (Inr ys # rest) = (case chain rest of Inl e \<Rightarrow> Inl e | Inr zs \<Rightarrow> Inr (ys @ zs))"

definition analyze_gaps ::
  "(string, (string, string) dict) dict \<Rightarrow> (string, ElementDef) dict \<Rightarrow> 'r
     \<Rightarrow> py_error + GapItem list"
where
  "analyze_gaps known_checks elements content_rules =
     chain [phrasing_gaps known_checks, void_gaps known_checks, restricted_gaps known_checks,
            transparent_gaps known_checks, interactive_gaps known_checks,
            input_gaps known_checks, picture_gaps known_checks, figure_gaps known_checks]"

text \<open>The end of \<^verbatim>\<open>main\<close> in relaxng-audit.py: \<^verbatim>\<open>sys.exit(2)\<close> when a gap of high
  priority remains, status 0 otherwise.\<close>

definition rng_main_exit :: "GapItem list \<Rightarrow> int" where
  "rng_main_exit gaps = (if filter (\<lambda>g. priority g = ''high'') gaps \<noteq> [] then 2 else 0)"

text \<open>
  For a phrasing-only element, whether the registry records an implemented check for that
  element or the general block-in-phrasing check as implemented; the gap items of a result
  whose list of affected elements is exactly the given element; and two registries for
  examples, the second recording only two general checks.
\<close>

definition covered :: "(string, (string, string) dict) dict \<Rightarrow> string \<Rightarrow> bool" where
  "covered known_checks elem =
     (get_implemented known_checks (elem @ ''-phrasing-only'')
      \<or> get_implemented known_checks ''block-in-phrasing'')"

definition gaps_naming :: "string \<Rightarrow> py_error + GapItem list \<Rightarrow> GapItem list" where
  "gaps_naming elem r =
     (case r of Inl e \<Rightarrow> [] | Inr gaps \<Rightarrow> filter (\<lambda>g. affected_elements g = [elem]) gaps)"

definition empty_registry :: "(string, (string, string) dict) dict" where
  "empty_registry = []"

definition general_registry :: "(string, (string, string) dict) dict" where
  "general_registry =
     [(''block-in-phrasing'', [(''status'', ''implemented''), (''go'', ''content.go'')]),
      (''interactive-in-interactive'', [(''status'', ''implemented'')])]"

section \<open>Properties of the enumerated-identity audit\<close>

subsection \<open>Reconciliation and counting\<close>

lemma map_of_apply_overrides_none:
  "map_of known c = None \<Longrightarrow> map_of (apply_overrides known msgs) c = map_of msgs c"
proof (induction known arbitrary: msgs)
  case Nil
  then show ?case by simp
next
  case (Cons p known)
  obtain c' ov where p: "p = (c', ov)" by (cases p)
  from Cons.prems p have ne: "c' \<noteq> c" and rest: "map_of known c = None"
    by (auto split: if_splits)
  show ?case
    using Cons.IH [OF rest] ne by (simp add: p map_of_map_entry)
qed

lemma map_of_apply_overrides_some:
  "distinct (map fst known) \<Longrightarrow> map_of known c = Some ov \<Longrightarrow>
   map_of (apply_overrides known msgs) c = map_option (apply_override c ov) (map_of msgs c)"
proof (induction known arbitrary: msgs)
  case Nil
  then show ?case by simp
next
  case (Cons p known)
  obtain c' ov' where p: "p = (c', ov')" by (cases p)
  show ?case
  proof (cases "c' = c")
    case True
    with Cons.prems p have ov: "ov' = ov" and none: "map_of known c = None"
      by (auto simp: map_of_eq_None_iff)
    show ?thesis
      using True ov map_of_apply_overrides_none [OF none]
      by (auto simp: p dict_in_def map_of_map_entry split: option.splits)
  next
    case False
    with Cons.prems p have d: "distinct (map fst known)" and s: "map_of known c = Some ov"
      by auto
    show ?thesis
      using Cons.IH [OF d s] False by (simp add: p map_of_map_entry)
  qed
qed

text \<open>
  Claim C1. For a check ID \<open>c\<close> of the message set, the status after the overrides are
  applied follows this precedence: the status of the override entry for \<open>c\<close>, when there
  is an entry and it carries a status; otherwise \<open>suppressed\<close> when the severity is
  \<open>SUPPRESSED\<close>; otherwise \<open>implemented\<close> when the ID was found in the Go source; otherwise
  \<open>missing\<close>. The override table is a dictionary (its keys are distinct) and the message
  comes from the parsers, which leave \<open>override_status\<close> empty.
\<close>

theorem status_precedence:
  assumes "distinct (map fst known)"
    and "map_of msgs c = Some m"
    and "override_status m = []"
  shows "map_option status (map_of (apply_overrides known msgs) c) =
     Some (case map_of known c of
             Some ov \<Rightarrow>
               if dict_get ov ''status'' [] \<noteq> [] then dict_get ov ''status'' []
               else if severity m = ''SUPPRESSED'' then ''suppressed''
               else if in_go_code m then ''implemented''
               else ''missing''
           | None \<Rightarrow>
               if severity m = ''SUPPRESSED'' then ''suppressed''
               else if in_go_code m then ''implemented''
               else ''missing'')"
proof (cases "map_of known c")
  case None
  then show ?thesis
    using assms by (simp add: map_of_apply_overrides_none status_def)
next
  case (Some ov)
  then show ?thesis
    using assms by (simp add: map_of_apply_overrides_some status_def apply_override_def)
qed

text \<open>
  The theorem at a table with one entry: ACC-001 is overridden to \<open>wontfix\<close>; ACC-002 has no
  entry, is suppressed and is also found in the Go source, and comes out \<open>suppressed\<close>.
\<close>

theorem status_precedence_witness:
  "map_option status
     (map_of (apply_overrides [(''ACC-001'', [(''status'', ''wontfix''), (''note'', ''niche'')])]
                [(''ACC-001'', (new_MessageInfo ''ACC-001'' ''ACC'')
                                 \<lparr>severity := ''SUPPRESSED'', in_go_code := True\<rparr>),
                 (''ACC-002'', (new_MessageInfo ''ACC-002'' ''ACC'')
                                 \<lparr>severity := ''SUPPRESSED'', in_go_code := True\<rparr>)])
        ''ACC-001'') = Some ''wontfix''
   \<and> map_option status
     (map_of (apply_overrides [(''ACC-001'', [(''status'', ''wontfix''), (''note'', ''niche'')])]
                [(''ACC-001'', (new_MessageInfo ''ACC-001'' ''ACC'')
                                 \<lparr>severity := ''SUPPRESSED'', in_go_code := True\<rparr>),
                 (''ACC-002'', (new_MessageInfo ''ACC-002'' ''ACC'')
                                 \<lparr>severity := ''SUPPRESSED'', in_go_code := True\<rparr>)])
        ''ACC-002'') = Some ''suppressed''"
  using status_precedence [of "[(''ACC-001'', [(''status'', ''wontfix''), (''note'', ''niche'')])]"
      "[(''ACC-001'', (new_MessageInfo ''ACC-001'' ''ACC'')\<lparr>severity := ''SUPPRESSED'', in_go_code := True\<rparr>),
        (''ACC-002'', (new_MessageInfo ''ACC-002'' ''ACC'')\<lparr>severity := ''SUPPRESSED'', in_go_code := True\<rparr>)]"
      "''ACC-001''"
      "(new_MessageInfo ''ACC-001'' ''ACC'')\<lparr>severity := ''SUPPRESSED'', in_go_code := True\<rparr>"]
    status_precedence [of "[(''ACC-001'', [(''status'', ''wontfix''), (''note'', ''niche'')])]"
      "[(''ACC-001'', (new_MessageInfo ''ACC-001'' ''ACC'')\<lparr>severity := ''SUPPRESSED'', in_go_code := True\<rparr>),
        (''ACC-002'', (new_MessageInfo ''ACC-002'' ''ACC'')\<lparr>severity := ''SUPPRESSED'', in_go_code := True\<rparr>)]"
      "''ACC-002''"
      "(new_MessageInfo ''ACC-002'' ''ACC'')\<lparr>severity := ''SUPPRESSED'', in_go_code := True\<rparr>"]
  by (simp add: new_MessageInfo_def dict_get_def)

lemma map_entry_other_fields:
  "(\<And>m. g (f m) = g m) \<Longrightarrow>
   map (\<lambda>(k, m). (k, g m)) (AList.map_entry c f xs) = map (\<lambda>(k, m). (k, g m)) xs"
  by (induction xs) auto

lemma apply_overrides_other_fields:
  "map (\<lambda>(k, m). (k, other_fields m)) (apply_overrides known msgs)
     = map (\<lambda>(k, m). (k, other_fields m)) msgs"
proof (induction known arbitrary: msgs)
  case Nil
  then show ?case by simp
next
  case (Cons p known)
  obtain c ov where p: "p = (c, ov)" by (cases p)
  have "map (\<lambda>(k, m). (k, other_fields m)) (AList.map_entry c (apply_override c ov) msgs)
          = map (\<lambda>(k, m). (k, other_fields m)) msgs"
    by (rule map_entry_other_fields) (simp add: other_fields_def apply_override_def)
  then show ?case
    using Cons.IH by (simp add: p)
qed

lemma apply_overrides_append:
  "apply_overrides (a @ b) msgs = apply_overrides b (apply_overrides a msgs)"
  by (induction a arbitrary: msgs) auto

lemma dict_keys_apply_overrides:
  "dict_keys (apply_overrides known msgs) = dict_keys msgs"
proof -
  have "map fst (map (\<lambda>(k, m). (k, other_fields m)) (apply_overrides known msgs))
          = map fst (map (\<lambda>(k, m). (k, other_fields m)) msgs)"
    by (simp only: apply_overrides_other_fields)
  then show ?thesis
    by (simp add: dict_keys_def case_prod_unfold comp_def)
qed

lemma dict_in_keys: "dict_in c msgs = (c \<in> set (dict_keys msgs))"
  by (simp add: dict_in_def dict_keys_def map_of_eq_None_iff)

text \<open>
  Claim C10. Applying the override table neither adds nor removes a record and keeps the
  order of the keys; in every record the code, the severity, the message text, the origin
  locations, the category and the two evidence booleans stay as they were, so that only
  \<open>override_status\<close> and \<open>override_note\<close> can differ; and an entry of the table whose code
  is not a key of the message set has no effect, wherever it stands in the table.
\<close>

theorem apply_overrides_frame:
  "dict_keys (apply_overrides known msgs) = dict_keys msgs
   \<and> map (\<lambda>(k, m). (k, other_fields m)) (apply_overrides known msgs)
       = map (\<lambda>(k, m). (k, other_fields m)) msgs
   \<and> (\<not> dict_in c msgs \<longrightarrow>
        apply_overrides (known @ [(c, ov)] @ rest) msgs = apply_overrides (known @ rest) msgs)"
proof -
  have "apply_overrides (known @ [(c, ov)] @ rest) msgs = apply_overrides (known @ rest) msgs"
    if "\<not> dict_in c msgs"
  proof -
    from that have "\<not> dict_in c (apply_overrides known msgs)"
      by (simp add: dict_in_keys dict_keys_apply_overrides)
    then show ?thesis
      by (simp add: apply_overrides_append)
  qed
  then show ?thesis
    by (simp add: dict_keys_apply_overrides apply_overrides_other_fields)
qed

text \<open>The theorem at a table holding an entry for the unknown code ZZZ-999.\<close>

theorem apply_overrides_frame_witness:
  "apply_overrides ([(''ACC-001'', [(''status'', ''wontfix'')])] @ [(''ZZZ-999'', [(''status'', ''partial'')])] @ [])
       [(''ACC-001'', new_MessageInfo ''ACC-001'' ''ACC'')]
   = apply_overrides ([(''ACC-001'', [(''status'', ''wontfix'')])] @ [])
       [(''ACC-001'', new_MessageInfo ''ACC-001'' ''ACC'')]"
  using apply_overrides_frame [of "[(''ACC-001'', [(''status'', ''wontfix'')])]"
      "[(''ACC-001'', new_MessageInfo ''ACC-001'' ''ACC'')]" "''ZZZ-999''"
      "[(''status'', ''partial'')]" "[]"]
  by (simp add: dict_in_def)

lemma fold_count_message_frame:
  "total_codes (fold count_message ms r) = total_codes r
   \<and> messages (fold count_message ms r) = messages r
   \<and> epubcheck_commit (fold count_message ms r) = epubcheck_commit r"
  by (induction ms arbitrary: r) (simp_all add: count_message_def Let_def)

lemma fold_count_message_implemented:
  "implemented (fold count_message ms r) = implemented r + count_status ''implemented'' ms"
  by (induction ms arbitrary: r) (simp_all add: count_message_def count_status_def Let_def)

lemma fold_count_message_suppressed:
  "suppressed (fold count_message ms r) = suppressed r + count_status ''suppressed'' ms"
  by (induction ms arbitrary: r) (simp_all add: count_message_def count_status_def Let_def)

lemma fold_count_message_wontfix:
  "wontfix (fold count_message ms r) = wontfix r + count_status ''wontfix'' ms"
  by (induction ms arbitrary: r) (simp_all add: count_message_def count_status_def Let_def)

lemma fold_count_message_partial:
  "partial (fold count_message ms r) = partial r + count_status ''partial'' ms"
  by (induction ms arbitrary: r) (simp_all add: count_message_def count_status_def Let_def)

lemma fold_count_message_missing:
  "missing (fold count_message ms r) = missing r + count_status ''missing'' ms"
  by (induction ms arbitrary: r) (simp_all add: count_message_def count_status_def Let_def)

lemma fold_count_message_tested:
  "tested (fold count_message ms r) = tested r + int (length (filter in_bdd_tests ms))"
  by (induction ms arbitrary: r) (simp_all add: count_message_def Let_def)

lemmas fold_count_message =
  fold_count_message_frame fold_count_message_implemented fold_count_message_suppressed
  fold_count_message_wontfix fold_count_message_partial fold_count_message_missing
  fold_count_message_tested

lemma count_status_partition:
  "\<forall>m\<in>set ms. status m \<in> {''implemented'', ''suppressed'', ''wontfix'', ''partial'', ''missing''}
   \<Longrightarrow> count_status ''implemented'' ms + count_status ''suppressed'' ms
        + count_status ''wontfix'' ms + count_status ''partial'' ms + count_status ''missing'' ms
       = int (length ms)"
  by (induction ms) (auto simp: count_status_def)

lemma set_map_entry_subset:
  "(k, v) \<in> set (AList.map_entry c f xs) \<Longrightarrow> (k, v) \<in> set xs \<or> (\<exists>w. (k, w) \<in> set xs \<and> v = f w)"
  by (induction xs) (auto split: if_splits)

lemma apply_overrides_override_status:
  assumes "\<forall>ov\<in>snd ` set known. P (dict_get ov ''status'' [])"
    and "\<forall>m\<in>snd ` set msgs. P (override_status m)"
  shows "\<forall>m\<in>snd ` set (apply_overrides known msgs). P (override_status m)"
  using assms
proof (induction known arbitrary: msgs)
  case Nil
  then show ?case by simp
next
  case (Cons p known)
  obtain c ov where p: "p = (c, ov)" by (cases p)
  from Cons.prems(1) p have ov: "P (dict_get ov ''status'' [])"
    and rest: "\<forall>ov\<in>snd ` set known. P (dict_get ov ''status'' [])"
    by simp_all
  have step: "\<forall>m\<in>snd ` set (AList.map_entry c (apply_override c ov) msgs). P (override_status m)"
  proof
    fix m assume "m \<in> snd ` set (AList.map_entry c (apply_override c ov) msgs)"
    then obtain k where "(k, m) \<in> set (AList.map_entry c (apply_override c ov) msgs)" by auto
    from set_map_entry_subset [OF this]
    consider "(k, m) \<in> set msgs" | w where "m = apply_override c ov w" by blast
    then show "P (override_status m)"
    proof cases
      case 1
      then have "m \<in> snd ` set msgs" by force
      with Cons.prems(2) show ?thesis by blast
    next
      case 2
      with ov show ?thesis by (simp add: apply_override_def)
    qed
  qed
  show ?case
  proof (cases "dict_in c msgs")
    case True
    with Cons.IH [OF rest step] show ?thesis by (simp add: p)
  next
    case False
    with Cons.IH [OF rest Cons.prems(2)] show ?thesis by (simp add: p)
  qed
qed

lemma status_in_buckets:
  "override_status m \<in> {[], ''implemented'', ''suppressed'', ''wontfix'', ''partial'', ''missing''}
   \<Longrightarrow> status m \<in> {''implemented'', ''suppressed'', ''wontfix'', ''partial'', ''missing''}"
  by (auto simp: status_def)

lemma generate_report_fields:
  "messages (generate_report msgs commit) = sort_key code (dict_values msgs)
   \<and> total_codes (generate_report msgs commit) = int (length msgs)
   \<and> epubcheck_commit (generate_report msgs commit) = commit
   \<and> implemented (generate_report msgs commit) = count_status ''implemented'' (sort_key code (dict_values msgs))
   \<and> suppressed (generate_report msgs commit) = count_status ''suppressed'' (sort_key code (dict_values msgs))
   \<and> wontfix (generate_report msgs commit) = count_status ''wontfix'' (sort_key code (dict_values msgs))
   \<and> partial (generate_report msgs commit) = count_status ''partial'' (sort_key code (dict_values msgs))
   \<and> missing (generate_report msgs commit) = count_status ''missing'' (sort_key code (dict_values msgs))
   \<and> tested (generate_report msgs commit) = int (length (filter in_bdd_tests (sort_key code (dict_values msgs))))"
  by (simp add: generate_report_def Let_def fold_count_message new_AuditResult_def)

text \<open>
  Claim C2, as amended. When every override of the table carries one of the five bucket
  names as its status, or none, and the messages come from the parsers with an empty
  \<open>override_status\<close>, every message of the report has exactly one status and it is one of
  implemented, suppressed, wontfix, partial, missing; the report lists as many messages as
  the message set holds; and the five counters add up to \<open>total_codes\<close>.
\<close>

theorem buckets_partition:
  assumes "\<forall>ov\<in>snd ` set known. dict_get ov ''status'' []
             \<in> {[], ''implemented'', ''suppressed'', ''wontfix'', ''partial'', ''missing''}"
    and "\<forall>m\<in>snd ` set msgs. override_status m = []"
  shows "(\<forall>m\<in>set (messages (generate_report (apply_overrides known msgs) commit)).
            status m \<in> {''implemented'', ''suppressed'', ''wontfix'', ''partial'', ''missing''})
     \<and> length (messages (generate_report (apply_overrides known msgs) commit)) = length msgs
     \<and> total_codes (generate_report (apply_overrides known msgs) commit) = int (length msgs)
     \<and> implemented (generate_report (apply_overrides known msgs) commit)
        + suppressed (generate_report (apply_overrides known msgs) commit)
        + wontfix (generate_report (apply_overrides known msgs) commit)
        + partial (generate_report (apply_overrides known msgs) commit)
        + missing (generate_report (apply_overrides known msgs) commit)
       = total_codes (generate_report (apply_overrides known msgs) commit)"
proof -
  let ?S = "{[], ''implemented'', ''suppressed'', ''wontfix'', ''partial'', ''missing''}"
  let ?ms = "sort_key code (dict_values (apply_overrides known msgs))"
  have len: "length (apply_overrides known msgs) = length msgs"
    using arg_cong [OF dict_keys_apply_overrides, of length known msgs]
    by (simp add: dict_keys_def)
  have "\<forall>m\<in>snd ` set msgs. override_status m \<in> ?S"
    using assms(2) by simp
  from apply_overrides_override_status [where P = "\<lambda>s. s \<in> ?S", OF assms(1) this]
  have "\<forall>m\<in>snd ` set (apply_overrides known msgs). override_status m \<in> ?S" .
  then have st: "\<forall>m\<in>set ?ms.
      status m \<in> {''implemented'', ''suppressed'', ''wontfix'', ''partial'', ''missing''}"
    using status_in_buckets by (simp add: dict_values_def)
  have "length ?ms = length msgs"
    by (simp add: dict_values_def len)
  with count_status_partition [OF st] st show ?thesis
    by (simp add: generate_report_fields len)
qed


text \<open>The theorem on the example table and messages.\<close>

theorem buckets_partition_witness:
  "total_codes (generate_report (apply_overrides example_overrides example_messages) ''0123abc'') = 2
   \<and> implemented (generate_report (apply_overrides example_overrides example_messages) ''0123abc'')
        + suppressed (generate_report (apply_overrides example_overrides example_messages) ''0123abc'')
        + wontfix (generate_report (apply_overrides example_overrides example_messages) ''0123abc'')
        + partial (generate_report (apply_overrides example_overrides example_messages) ''0123abc'')
        + missing (generate_report (apply_overrides example_overrides example_messages) ''0123abc'')
       = 2"
proof -
  have h1: "\<forall>ov\<in>snd ` set example_overrides. dict_get ov ''status'' []
             \<in> {[], ''implemented'', ''suppressed'', ''wontfix'', ''partial'', ''missing''}"
    by (simp add: example_overrides_def dict_get_def)
  have h2: "\<forall>m\<in>snd ` set example_messages. override_status m = []"
    by (simp add: example_messages_def new_MessageInfo_def)
  have "length example_messages = 2"
    by (simp add: example_messages_def)
  with buckets_partition [OF h1 h2, of "''0123abc''"] show ?thesis
    by simp
qed

text \<open>
  Claim C2 as stated fails for the documented override status \<open>note\<close>: the status of the
  message is then \<open>note\<close>, which no branch of the counting loop takes, so one message is
  counted in the total and in none of the five buckets.
\<close>

theorem note_override_counterexample:
  "total_codes note_override_report = 1
   \<and> implemented note_override_report + suppressed note_override_report
       + wontfix note_override_report + partial note_override_report
       + missing note_override_report = 0"
  by (simp add: note_override_report_def generate_report_fields count_status_def status_def
        dict_in_def apply_override_def dict_get_def dict_values_def new_MessageInfo_def)

text \<open>The enumerated-identity audit ends with exit status 0 whatever the report holds.\<close>

lemma main_exit_zero: "snd (main_exit r) = 0"
  by (simp add: main_exit_def)

text \<open>
  Claim C3. The claim asks for a non-zero exit status whenever checks are missing. On a run
  with one missing check the enumerated-identity audit counts it and still ends with
  status 0: its last statement only prints the count.
\<close>

theorem java_exit_status_zero:
  "missing one_missing_report = 1 \<and> snd (main_exit one_missing_report) = 0"
  by (simp add: one_missing_report_def generate_report_fields count_status_def status_def
        dict_values_def new_MessageInfo_def main_exit_def)

text \<open>The two sibling audits do end with a non-zero status when gaps remain.\<close>

lemma sch_main_exit_nonzero: "sch_missing r > 0 \<Longrightarrow> sch_main_exit r \<noteq> 0"
  by (simp add: sch_main_exit_def)

lemma rng_main_exit_nonzero:
  "g \<in> set gaps \<Longrightarrow> priority g = ''high'' \<Longrightarrow> rng_main_exit gaps \<noteq> 0"
  by (auto simp: rng_main_exit_def filter_empty_conv)





lemma replace_char_append:
  "replace_char old new (a @ b) = replace_char old new a @ replace_char old new b"
  by (simp add: replace_char_def)




subsection \<open>The two renderings\<close>

text \<open>The decimal rendering of an integer determines the integer.\<close>

lemma str_nat_small: "n < 10 \<Longrightarrow> str_nat n = [digit_char n]"
  by (subst str_nat.simps) simp

lemma str_nat_big: "\<not> n < 10 \<Longrightarrow> str_nat n = str_nat (n div 10) @ [digit_char (n mod 10)]"
  by (subst str_nat.simps) simp

lemma str_nat_nonempty: "str_nat n \<noteq> []"
  by (subst str_nat.simps) simp

lemma digit_char_inj: "a < 10 \<Longrightarrow> b < 10 \<Longrightarrow> digit_char a = digit_char b \<Longrightarrow> a = b"
proof -
  assume a: "a < 10" and b: "b < 10" and e: "digit_char a = digit_char b"
  from e have "(of_char (digit_char a) :: nat) = of_char (digit_char b)" by simp
  with a b show "a = b" by (simp add: digit_char_def)
qed

lemma digit_char_not_minus: "d < 10 \<Longrightarrow> digit_char d \<noteq> CHR ''-''"
proof
  assume d: "d < 10" and e: "digit_char d = CHR ''-''"
  from e have "(of_char (digit_char d) :: nat) = of_char CHR ''-''" by simp
  with d show False by (simp add: digit_char_def)
qed

lemma str_nat_inj: "str_nat a = str_nat b \<Longrightarrow> a = b"
proof (induction a arbitrary: b rule: less_induct)
  case (less a)
  show ?case
  proof (cases "a < 10")
    case True
    show ?thesis
    proof (cases "b < 10")
      case b: True
      with True less.prems show ?thesis
        by (simp add: str_nat_small digit_char_inj)
    next
      case b: False
      with True less.prems str_nat_nonempty [of "b div 10"] show ?thesis
        by (simp add: str_nat_small str_nat_big)
    qed
  next
    case False
    show ?thesis
    proof (cases "b < 10")
      case b: True
      with False less.prems str_nat_nonempty [of "a div 10"] show ?thesis
        by (simp add: str_nat_small str_nat_big)
    next
      case b: False
      with False less.prems have e1: "str_nat (a div 10) = str_nat (b div 10)"
        and e2: "digit_char (a mod 10) = digit_char (b mod 10)"
        by (simp_all add: str_nat_big)
      from False have "a div 10 < a" by simp
      from less.IH [OF this e1] have d: "a div 10 = b div 10" .
      from e2 have m: "a mod 10 = b mod 10"
        by (intro digit_char_inj) simp_all
      from d m show ?thesis
        by (metis div_mult_mod_eq)
    qed
  qed
qed

lemma hd_str_nat_not_minus: "hd (str_nat n) \<noteq> CHR ''-''"
proof (induction n rule: less_induct)
  case (less n)
  show ?case
  proof (cases "n < 10")
    case True
    then show ?thesis by (simp add: str_nat_small digit_char_not_minus)
  next
    case False
    then have "n div 10 < n" by simp
    from less.IH [OF this] False str_nat_nonempty [of "n div 10"] show ?thesis
      by (simp add: str_nat_big)
  qed
qed

lemma str_int_inj: "str_int a = str_int b \<Longrightarrow> a = b"
proof -
  assume e: "str_int a = str_int b"
  have neg: "str_int i = CHR ''-'' # str_nat (nat (- i))" if "i < 0" for i
    using that by (simp add: str_int_def)
  have pos: "str_int i = str_nat (nat i)" if "\<not> i < 0" for i
    using that by (simp add: str_int_def)
  have hd_pos: "hd (str_int i) \<noteq> CHR ''-''" if "\<not> i < 0" for i
    using that hd_str_nat_not_minus by (simp add: pos)
  show "a = b"
  proof (cases "a < 0")
    case True
    show ?thesis
    proof (cases "b < 0")
      case b: True
      with True e have "str_nat (nat (- a)) = str_nat (nat (- b))" by (simp add: neg)
      from str_nat_inj [OF this] True b show ?thesis by simp
    next
      case b: False
      from neg [OF True] have "hd (str_int a) = CHR ''-''" by simp
      with e hd_pos [OF b] show ?thesis by simp
    qed
  next
    case False
    show ?thesis
    proof (cases "b < 0")
      case b: True
      from neg [OF b] have "hd (str_int b) = CHR ''-''" by simp
      with e hd_pos [OF False] show ?thesis by simp
    next
      case b: False
      with False e have "str_nat (nat a) = str_nat (nat b)" by (simp add: pos)
      from str_nat_inj [OF this] False b show ?thesis by simp
    qed
  qed
qed

lemma print_text_report_summary:
  "take 14 (fst (print_text_report result summary_only)) = summary_lines result"
  by (cases "count_categories (messages result) []")
     (simp_all add: print_text_report_def summary_lines_def)

text \<open>
  Claim C6. For every audit result, the seven count lines of the human-readable report
  (total, implemented, tested, suppressed, wontfix, partial, missing) are, line by line,
  the label followed by the decimal rendering of the count that the machine-readable report
  holds under the corresponding key of its summary object. This holds whether or not the
  human-readable emitter later stops in its category table, since the counts are printed
  first.
\<close>

theorem text_counts_equal_json:
  "map (\<lambda>(label, key). map_option (\<lambda>n. label @ str_int n)
                          (json_count (print_json_report result) key)) count_labels
     = map Some (take 7 (drop 6 (fst (print_text_report result summary_only))))"
proof -
  have "take 7 (drop 6 (fst (print_text_report result summary_only)))
      = take 7 (drop 6 (take 14 (fst (print_text_report result summary_only))))"
    by (simp add: take_drop)
  also have "\<dots> = take 7 (drop 6 (summary_lines result))"
    by (simp only: print_text_report_summary)
  finally show ?thesis
    by (simp add: summary_lines_def count_labels_def json_count_def json_member_def
          print_json_report_def summary_json_def)
qed

subsection \<open>Determinism of the machine-readable report\<close>

text \<open>With distinct keys, the scan of the Java sources acts on each record on its own.\<close>

lemma map_entry_distinct:
  "distinct (map fst xs) \<Longrightarrow>
   AList.map_entry c f xs = map (\<lambda>(k, v). (k, if k = c then f v else v)) xs"
proof (induction xs)
  case Nil
  then show ?case by simp
next
  case (Cons p xs)
  obtain k v where p: "p = (k, v)" by (cases p)
  show ?case
  proof (cases "k = c")
    case True
    with Cons.prems p have "c \<notin> fst ` set xs" by auto
    then have "map (\<lambda>(k, v). (k, if k = c then f v else v)) xs = xs"
      by (induction xs) auto
    with True show ?thesis by (simp add: p)
  next
    case False
    with Cons show ?thesis by (simp add: p)
  qed
qed

lemma fold_entrywise:
  assumes "\<And>y xs. distinct (map fst xs) \<Longrightarrow> g y xs = map (\<lambda>(k, m). (k, h y k m)) xs"
    and "distinct (map fst xs)"
  shows "fold g ys xs = map (\<lambda>(k, m). (k, fold (\<lambda>y. h y k) ys m)) xs"
  using assms(2)
proof (induction ys arbitrary: xs)
  case Nil
  then show ?case by simp
next
  case (Cons y ys)
  have keys: "map fst (map (\<lambda>(k, m). (k, h y k m)) xs) = map fst xs"
    by (induction xs) auto
  from Cons.prems have d: "distinct (map fst (map (\<lambda>(k, m). (k, h y k m)) xs))"
    by (simp only: keys)
  show ?case
    using Cons.IH [OF d] by (simp add: assms(1) [OF Cons.prems] case_prod_unfold comp_def)
qed

lemma scan_match_entrywise:
  "distinct (map fst msgs) \<Longrightarrow>
   scan_match etc short e msgs = map (\<lambda>(k, m). (k, entry_match etc short k e m)) msgs"
proof (cases "map_of etc e")
  case None
  then have "map (\<lambda>(k, m). (k, entry_match etc short k e m)) msgs = msgs"
    by (induction msgs) (auto simp: entry_match_def)
  with None show ?thesis by (simp add: scan_match_def)
next
  case (Some c)
  assume "distinct (map fst msgs)"
  then have "AList.map_entry c (record_emitter short) msgs
      = map (\<lambda>(k, v). (k, if k = c then record_emitter short v else v)) msgs"
    by (rule map_entry_distinct)
  also have "\<dots> = map (\<lambda>(k, m). (k, entry_match etc short k e m)) msgs"
    using Some by (intro map_cong) (auto simp: entry_match_def)
  finally show ?thesis
    using Some by (simp add: scan_match_def)
qed

lemma scan_file_entrywise:
  assumes "distinct (map fst msgs)"
  shows "scan_file etc f msgs = map (\<lambda>(k, m). (k, entry_file etc k f m)) msgs"
proof -
  have id: "map (\<lambda>(k, m). (k, m)) msgs = msgs" by (induction msgs) auto
  show ?thesis
  proof (cases "file_name f \<in> {''MessageId.java'', ''DefaultSeverities.java''}")
    case True
    then show ?thesis
      using id by (simp add: scan_file_def entry_file_def)
  next
    case False
    show ?thesis
    proof (cases "refs f")
      case None
      with False id show ?thesis by (simp add: scan_file_def entry_file_def)
    next
      case (Some ms)
      have "fold (scan_match etc (stem f)) ms msgs
          = map (\<lambda>(k, m). (k, fold (\<lambda>e. entry_match etc (stem f) k e) ms m)) msgs"
        by (rule fold_entrywise [OF scan_match_entrywise assms])
      with False Some show ?thesis
        by (simp add: scan_file_def entry_file_def)
    qed
  qed
qed

lemma find_java_emitters_entrywise:
  assumes "distinct (map fst msgs)"
  shows "find_java_emitters (Some files) msgs
     = map (\<lambda>(k, m). (k, fold (entry_file (build_enum_to_code msgs) k) files m)) msgs"
proof -
  have "fold (scan_file (build_enum_to_code msgs)) files msgs
      = map (\<lambda>(k, m). (k, fold (\<lambda>f. entry_file (build_enum_to_code msgs) k f) files m)) msgs"
    by (rule fold_entrywise [OF scan_file_entrywise assms])
  then show ?thesis
    by (simp add: find_java_emitters_def)
qed

lemma record_emitter_props:
  "\<exists>js. record_emitter short m = m\<lparr>java_files := js\<rparr>
     \<and> set js = insert short (set (java_files m))
     \<and> (distinct (java_files m) \<longrightarrow> distinct js)"
proof (cases "short \<in> set (java_files m)")
  case True
  then show ?thesis
    by (intro exI [of _ "java_files m"]) (auto simp: record_emitter_def)
next
  case False
  then show ?thesis
    by (intro exI [of _ "java_files m @ [short]"]) (auto simp: record_emitter_def)
qed

lemma entry_match_props:
  "\<exists>js. entry_match etc short k e m = m\<lparr>java_files := js\<rparr>
     \<and> set js = set (java_files m) \<union> (if map_of etc e = Some k then {short} else {})
     \<and> (distinct (java_files m) \<longrightarrow> distinct js)"
proof (cases "map_of etc e = Some k")
  case True
  with record_emitter_props [of short m] show ?thesis
    by (simp add: entry_match_def)
next
  case False
  then show ?thesis
    by (intro exI [of _ "java_files m"]) (simp add: entry_match_def)
qed

lemma fold_entry_match_props:
  "\<exists>js. fold (entry_match etc short k) ms m = m\<lparr>java_files := js\<rparr>
     \<and> set js = set (java_files m) \<union> (if \<exists>e\<in>set ms. map_of etc e = Some k then {short} else {})
     \<and> (distinct (java_files m) \<longrightarrow> distinct js)"
proof (induction ms arbitrary: m)
  case Nil
  show ?case by (intro exI [of _ "java_files m"]) simp
next
  case (Cons e ms)
  from entry_match_props [of etc short k e m] obtain js1 where
    m1: "entry_match etc short k e m = m\<lparr>java_files := js1\<rparr>"
    and s1: "set js1 = set (java_files m) \<union> (if map_of etc e = Some k then {short} else {})"
    and d1: "distinct (java_files m) \<longrightarrow> distinct js1"
    by blast
  from Cons.IH [of "m\<lparr>java_files := js1\<rparr>"] obtain js2 where
    m2: "fold (entry_match etc short k) ms (m\<lparr>java_files := js1\<rparr>) = m\<lparr>java_files := js2\<rparr>"
    and s2: "set js2 = set js1 \<union> (if \<exists>e\<in>set ms. map_of etc e = Some k then {short} else {})"
    and d2: "distinct js1 \<longrightarrow> distinct js2"
    by auto
  have "set js2 = set (java_files m)
      \<union> (if \<exists>e\<in>set (e # ms). map_of etc e = Some k then {short} else {})"
    unfolding s2 s1 by auto
  with m1 m2 d1 d2 show ?case
    by (intro exI [of _ js2]) simp
qed

lemma entry_file_props:
  "\<exists>js. entry_file etc k f m = m\<lparr>java_files := js\<rparr>
     \<and> set js = set (java_files m) \<union> (if emits etc k f then {stem f} else {})
     \<and> (distinct (java_files m) \<longrightarrow> distinct js)"
proof (cases "file_name f \<in> {''MessageId.java'', ''DefaultSeverities.java''}")
  case True
  then show ?thesis
    by (intro exI [of _ "java_files m"]) (simp add: entry_file_def emits_def)
next
  case False
  show ?thesis
  proof (cases "refs f")
    case None
    with False show ?thesis
      by (intro exI [of _ "java_files m"]) (simp add: entry_file_def emits_def)
  next
    case (Some ms)
    with False have e: "entry_file etc k f m = fold (entry_match etc (stem f) k) ms m"
      and em: "emits etc k f = (\<exists>e\<in>set ms. map_of etc e = Some k)"
      by (simp_all add: entry_file_def emits_def)
    show ?thesis
      unfolding e em by (rule fold_entry_match_props)
  qed
qed

lemma fold_entry_file_props:
  "\<exists>js. fold (entry_file etc k) files m = m\<lparr>java_files := js\<rparr>
     \<and> set js = set (java_files m) \<union> stem ` {f \<in> set files. emits etc k f}
     \<and> (distinct (java_files m) \<longrightarrow> distinct js)"
proof (induction files arbitrary: m)
  case Nil
  show ?case by (intro exI [of _ "java_files m"]) simp
next
  case (Cons f files)
  from entry_file_props [of etc k f m] obtain js1 where
    m1: "entry_file etc k f m = m\<lparr>java_files := js1\<rparr>"
    and s1: "set js1 = set (java_files m) \<union> (if emits etc k f then {stem f} else {})"
    and d1: "distinct (java_files m) \<longrightarrow> distinct js1"
    by blast
  from Cons.IH [of "m\<lparr>java_files := js1\<rparr>"] obtain js2 where
    m2: "fold (entry_file etc k) files (m\<lparr>java_files := js1\<rparr>) = m\<lparr>java_files := js2\<rparr>"
    and s2: "set js2 = set js1 \<union> stem ` {f \<in> set files. emits etc k f}"
    and d2: "distinct js1 \<longrightarrow> distinct js2"
    by auto
  have "set js2 = set (java_files m) \<union> stem ` {g \<in> set (f # files). emits etc k g}"
    unfolding s2 s1 by auto
  with m1 m2 d1 d2 show ?case
    by (intro exI [of _ js2]) simp
qed

lemma sort_java_files_fold_entry_file:
  assumes "set files = set files'" and "distinct (java_files m)"
  shows "sort_java_files (fold (entry_file etc k) files m)
     = sort_java_files (fold (entry_file etc k) files' m)"
proof -
  from fold_entry_file_props [of etc k files m] assms(2) obtain ja where
    a: "fold (entry_file etc k) files m = m\<lparr>java_files := ja\<rparr>"
    and as: "set ja = set (java_files m) \<union> stem ` {f \<in> set files. emits etc k f}"
    and ad: "distinct ja"
    by blast
  from fold_entry_file_props [of etc k files' m] assms(2) obtain jb where
    b: "fold (entry_file etc k) files' m = m\<lparr>java_files := jb\<rparr>"
    and bs: "set jb = set (java_files m) \<union> stem ` {f \<in> set files'. emits etc k f}"
    and bd: "distinct jb"
    by blast
  from as bs assms(1) have "set (sort ja) = set (sort jb)"
    by simp
  moreover from ad bd have "distinct (sort ja)" "distinct (sort jb)"
    by simp_all
  ultimately have "sort ja = sort jb"
    by (intro sorted_distinct_set_unique) simp_all
  then show ?thesis
    by (simp add: a b sort_java_files_def)
qed

lemma sort_entries_find_java_emitters:
  assumes "distinct (map fst msgs)" and "\<forall>m\<in>snd ` set msgs. distinct (java_files m)"
    and "set files = set files'"
  shows "sort_entries (find_java_emitters (Some files) msgs)
     = sort_entries (find_java_emitters (Some files') msgs)"
proof -
  have "map (\<lambda>(k, m). (k, sort_java_files (fold (entry_file (build_enum_to_code msgs) k) files m))) msgs
      = map (\<lambda>(k, m). (k, sort_java_files (fold (entry_file (build_enum_to_code msgs) k) files' m))) msgs"
  proof (intro map_cong refl)
    fix x assume x: "x \<in> set msgs"
    obtain k m where km: "x = (k, m)" by (cases x)
    with x assms(2) have "distinct (java_files m)" by force
    from sort_java_files_fold_entry_file [OF assms(3) this] km
    show "(case x of (k, m) \<Rightarrow>
            (k, sort_java_files (fold (entry_file (build_enum_to_code msgs) k) files m)))
        = (case x of (k, m) \<Rightarrow>
            (k, sort_java_files (fold (entry_file (build_enum_to_code msgs) k) files' m)))"
      by simp
  qed
  then show ?thesis
    by (simp add: find_java_emitters_entrywise [OF assms(1)] sort_entries_def
          case_prod_unfold comp_def)
qed

text \<open>The later steps do not look at the origin locations, so they commute with sorting
  them.\<close>

lemma sort_entries_keys: "map fst (sort_entries xs) = map fst xs"
  by (induction xs) (auto simp: sort_entries_def)

lemma dict_in_sort_entries: "dict_in c (sort_entries xs) = dict_in c xs"
  by (simp add: dict_in_keys dict_keys_def sort_entries_keys)

lemma dict_keys_sort_entries: "dict_keys (sort_entries xs) = dict_keys xs"
  by (simp add: dict_keys_def sort_entries_keys)

lemma sort_entries_map_entry:
  "(\<And>m. sort_java_files (f m) = f (sort_java_files m)) \<Longrightarrow>
   sort_entries (AList.map_entry c f xs) = AList.map_entry c f (sort_entries xs)"
  by (induction xs) (auto simp: sort_entries_def)

lemma sort_entries_fold_mark:
  assumes "\<And>m. sort_java_files (f m) = f (sort_java_files m)"
  shows "fold (\<lambda>c msgs. if P c then AList.map_entry c f msgs else msgs) ks (sort_entries xs)
     = sort_entries (fold (\<lambda>c msgs. if P c then AList.map_entry c f msgs else msgs) ks xs)"
proof (induction ks arbitrary: xs)
  case Nil
  then show ?case by simp
next
  case (Cons k ks)
  show ?case
    using Cons.IH [of "AList.map_entry k f xs"] Cons.IH [of xs]
    by (simp add: sort_entries_map_entry [of f, OF assms])
qed

lemma sort_entries_find_go_implementations:
  "find_go_implementations go (sort_entries xs) = sort_entries (find_go_implementations go xs)"
  unfolding find_go_implementations_def dict_keys_sort_entries
  by (rule sort_entries_fold_mark) (simp add: sort_java_files_def)

lemma sort_entries_find_bdd_coverage:
  "find_bdd_coverage features (sort_entries xs) = sort_entries (find_bdd_coverage features xs)"
proof (cases features)
  case None
  then show ?thesis by (simp add: find_bdd_coverage_def)
next
  case (Some bdd)
  have "fold (\<lambda>c msgs. if c \<in> set bdd
                          then AList.map_entry c (\<lambda>m. m\<lparr>in_bdd_tests := True\<rparr>) msgs else msgs)
          (dict_keys xs) (sort_entries xs)
      = sort_entries (fold (\<lambda>c msgs. if c \<in> set bdd
                          then AList.map_entry c (\<lambda>m. m\<lparr>in_bdd_tests := True\<rparr>) msgs else msgs)
          (dict_keys xs) xs)"
    by (rule sort_entries_fold_mark) (simp add: sort_java_files_def)
  with Some show ?thesis
    by (simp add: find_bdd_coverage_def dict_keys_sort_entries)
qed

lemma sort_entries_apply_overrides:
  "apply_overrides known (sort_entries xs) = sort_entries (apply_overrides known xs)"
proof (induction known arbitrary: xs)
  case Nil
  then show ?case by simp
next
  case (Cons p known)
  obtain c ov where p: "p = (c, ov)" by (cases p)
  have "sort_entries (AList.map_entry c (apply_override c ov) xs)
      = AList.map_entry c (apply_override c ov) (sort_entries xs)"
    by (rule sort_entries_map_entry) (simp add: sort_java_files_def apply_override_def)
  with Cons.IH [of "AList.map_entry c (apply_override c ov) xs"] Cons.IH [of xs]
  show ?case
    by (simp add: p dict_in_sort_entries)
qed

lemma insort_key_map:
  "(\<And>y. k (f y) = k y) \<Longrightarrow> map f (insort_key k x xs) = insort_key k (f x) (map f xs)"
  by (induction xs) simp_all

lemma sort_key_map:
  "(\<And>y. k (f y) = k y) \<Longrightarrow> map f (sort_key k xs) = sort_key k (map f xs)"
  by (induction xs) (simp_all add: insort_key_map)

lemma status_sort_java_files: "status (sort_java_files m) = status m"
  by (simp add: status_def sort_java_files_def)

lemma count_status_sort_java_files:
  "count_status st (map sort_java_files ms) = count_status st ms"
  by (induction ms) (simp_all add: count_status_def status_sort_java_files)

lemma tested_sort_java_files:
  "length (filter (in_bdd_tests \<circ> sort_java_files) ms) = length (filter in_bdd_tests ms)"
  by (induction ms) (simp_all add: sort_java_files_def)

lemma dict_values_sort_entries:
  "dict_values (sort_entries xs) = map sort_java_files (dict_values xs)"
  by (induction xs) (auto simp: dict_values_def sort_entries_def)

lemma generate_report_sort_entries:
  "generate_report (sort_entries xs) commit = sorted_origins (generate_report xs commit)"
proof -
  have s: "sort_key code (map sort_java_files (dict_values xs))
      = map sort_java_files (sort_key code (dict_values xs))"
    by (rule sort_key_map [symmetric]) (simp add: sort_java_files_def)
  have l: "length (sort_entries xs) = length xs"
    by (simp add: sort_entries_def)
  show ?thesis
    by (rule AuditResult.equality)
       (simp_all add: generate_report_fields sorted_origins_def dict_values_sort_entries s l
          count_status_sort_java_files tested_sort_java_files)
qed

text \<open>
  Claim C4, as amended. Two runs over the same messages, the same Go and feature codes, the
  same override table and the same set of Java files, whatever the order in which the
  directory traversal yields these files, give machine-readable reports that are equal once
  every list of origin locations is sorted: they agree on the summary, on the order of the
  messages and on every field, and differ at most in the order of the names inside a list
  of origin locations. (The message set is a dictionary and its lists of origin locations
  hold no name twice, as after the parsers.)
\<close>

theorem json_up_to_origin_order:
  assumes "distinct (map fst msgs)"
    and "\<forall>m\<in>snd ` set msgs. distinct (java_files m)"
    and "set files = set files'"
  shows "print_json_report (sorted_origins (main_report (Some files) go features known commit msgs))
     = print_json_report (sorted_origins (main_report (Some files') go features known commit msgs))"
proof -
  have "sorted_origins (main_report (Some fs) go features known commit msgs)
      = generate_report
          (apply_overrides known
             (find_bdd_coverage features
                (find_go_implementations go (sort_entries (find_java_emitters (Some fs) msgs)))))
          commit" for fs
    by (simp add: main_report_def generate_report_sort_entries sort_entries_apply_overrides
          sort_entries_find_bdd_coverage sort_entries_find_go_implementations)
  then show ?thesis
    by (simp add: sort_entries_find_java_emitters [OF assms])
qed

text \<open>The theorem on the two example files in both orders.\<close>

theorem json_up_to_origin_order_witness:
  "print_json_report (sorted_origins (run_with_files [opf_checker, xref_checker]))
     = print_json_report (sorted_origins (run_with_files [xref_checker, opf_checker]))"
proof -
  have h1: "distinct (map fst (parse_message_ids [''OPF_001'', ''ACC-001'']))"
    by code_simp
  have h2: "\<forall>m\<in>snd ` set (parse_message_ids [''OPF_001'', ''ACC-001'']). distinct (java_files m)"
    by code_simp
  have h3: "set [opf_checker, xref_checker] = set [xref_checker, opf_checker]"
    by auto
  from json_up_to_origin_order [OF h1 h2 h3] show ?thesis
    by (simp add: run_with_files_def)
qed

text \<open>
  Claim C4 as stated fails when the directory traversal yields the same Java files in another
  order: the list of origin locations of OPF-001 comes out in the order of the traversal,
  and the two machine-readable reports differ.
\<close>

theorem traversal_order_counterexample:
  "map java_files (messages (run_with_files [opf_checker, xref_checker]))
     = [[], [''OPFChecker'', ''XRefChecker'']]
   \<and> map java_files (messages (run_with_files [xref_checker, opf_checker]))
     = [[], [''XRefChecker'', ''OPFChecker'']]
   \<and> print_json_report (run_with_files [opf_checker, xref_checker])
     \<noteq> print_json_report (run_with_files [xref_checker, opf_checker])"
  by code_simp

section \<open>Properties of the declarative-assertion audit\<close>

lemma audit_loop_counts:
  assumes "\<forall>c\<in>set checks. map_of kc (pattern_id c) \<noteq> None \<longrightarrow> registry_status kc c \<noteq> None"
  shows "\<exists>r'. audit_loop kc checks seen r = Inr r'
     \<and> sch_total_checks r' = sch_total_checks r + int (length checks)
     \<and> sch_partial r' = sch_partial r
         + int (length (filter (\<lambda>c. registry_status kc c = Some ''partial'') checks))
     \<and> sch_partial_checks r' = sch_partial_checks r
         @ filter (\<lambda>c. registry_status kc c = Some ''partial'') checks
     \<and> sch_implemented r' = sch_implemented r
         + int (length (filter (\<lambda>c. registry_status kc c \<noteq> None
                                   \<and> registry_status kc c \<noteq> Some ''partial'') checks))
     \<and> sch_missing r' = sch_missing r
         + int (length (filter (\<lambda>c. map_of kc (pattern_id c) = None) checks))
     \<and> sch_missing_checks r' = sch_missing_checks r
         @ filter (\<lambda>c. map_of kc (pattern_id c) = None) checks"
  using assms
proof (induction checks arbitrary: seen r)
  case Nil
  then show ?case by simp
next
  case (Cons c checks)
  from Cons.prems have rest:
    "\<forall>c\<in>set checks. map_of kc (pattern_id c) \<noteq> None \<longrightarrow> registry_status kc c \<noteq> None"
    by simp
  let ?seen = "insert (pattern_id c) seen"
  let ?r1 = "(if pattern_id c \<notin> seen
              then r\<lparr>sch_total_patterns := sch_total_patterns r + 1\<rparr> else r)"
  let ?r2 = "?r1\<lparr>sch_total_checks := sch_total_checks ?r1 + 1\<rparr>"
  show ?case
  proof (cases "map_of kc (pattern_id c)")
    case None
    then have rs: "registry_status kc c = None"
      by (simp add: registry_status_def)
    let ?r3 = "?r2\<lparr>sch_missing := sch_missing ?r2 + 1,
                    sch_missing_checks := sch_missing_checks ?r2 @ [c]\<rparr>"
    from Cons.IH [OF rest, of ?seen ?r3] obtain r' where
      "audit_loop kc checks ?seen ?r3 = Inr r'"
      and "sch_total_checks r' = sch_total_checks ?r3 + int (length checks)"
      and "sch_partial r' = sch_partial ?r3
         + int (length (filter (\<lambda>c. registry_status kc c = Some ''partial'') checks))"
      and "sch_partial_checks r' = sch_partial_checks ?r3
         @ filter (\<lambda>c. registry_status kc c = Some ''partial'') checks"
      and "sch_implemented r' = sch_implemented ?r3
         + int (length (filter (\<lambda>c. registry_status kc c \<noteq> None
                                   \<and> registry_status kc c \<noteq> Some ''partial'') checks))"
      and "sch_missing r' = sch_missing ?r3
         + int (length (filter (\<lambda>c. map_of kc (pattern_id c) = None) checks))"
      and "sch_missing_checks r' = sch_missing_checks ?r3
         @ filter (\<lambda>c. map_of kc (pattern_id c) = None) checks"
      by blast
    then show ?thesis
      using None rs by (intro exI [of _ r']) (simp add: Let_def)
  next
    case (Some known)
    with Cons.prems obtain st where st: "map_of known ''status'' = Some st"
      by (auto simp: registry_status_def)
    with Some have rs: "registry_status kc c = Some st"
      by (simp add: registry_status_def)
    show ?thesis
    proof (cases "st = ''partial''")
      case True
      let ?r3 = "?r2\<lparr>sch_partial := sch_partial ?r2 + 1,
                      sch_partial_checks := sch_partial_checks ?r2 @ [c]\<rparr>"
      from Cons.IH [OF rest, of ?seen ?r3] obtain r' where
        "audit_loop kc checks ?seen ?r3 = Inr r'"
        and "sch_total_checks r' = sch_total_checks ?r3 + int (length checks)"
        and "sch_partial r' = sch_partial ?r3
           + int (length (filter (\<lambda>c. registry_status kc c = Some ''partial'') checks))"
        and "sch_partial_checks r' = sch_partial_checks ?r3
           @ filter (\<lambda>c. registry_status kc c = Some ''partial'') checks"
        and "sch_implemented r' = sch_implemented ?r3
           + int (length (filter (\<lambda>c. registry_status kc c \<noteq> None
                                     \<and> registry_status kc c \<noteq> Some ''partial'') checks))"
        and "sch_missing r' = sch_missing ?r3
           + int (length (filter (\<lambda>c. map_of kc (pattern_id c) = None) checks))"
        and "sch_missing_checks r' = sch_missing_checks ?r3
           @ filter (\<lambda>c. map_of kc (pattern_id c) = None) checks"
        by blast
      then show ?thesis
        using True Some st rs by (intro exI [of _ r']) (simp add: Let_def status_of_def)
    next
      case False
      let ?r3 = "?r2\<lparr>sch_implemented := sch_implemented ?r2 + 1\<rparr>"
      from Cons.IH [OF rest, of ?seen ?r3] obtain r' where
        "audit_loop kc checks ?seen ?r3 = Inr r'"
        and "sch_total_checks r' = sch_total_checks ?r3 + int (length checks)"
        and "sch_partial r' = sch_partial ?r3
           + int (length (filter (\<lambda>c. registry_status kc c = Some ''partial'') checks))"
        and "sch_partial_checks r' = sch_partial_checks ?r3
           @ filter (\<lambda>c. registry_status kc c = Some ''partial'') checks"
        and "sch_implemented r' = sch_implemented ?r3
           + int (length (filter (\<lambda>c. registry_status kc c \<noteq> None
                                     \<and> registry_status kc c \<noteq> Some ''partial'') checks))"
        and "sch_missing r' = sch_missing ?r3
           + int (length (filter (\<lambda>c. map_of kc (pattern_id c) = None) checks))"
        and "sch_missing_checks r' = sch_missing_checks ?r3
           @ filter (\<lambda>c. map_of kc (pattern_id c) = None) checks"
        by blast
      then show ?thesis
        using False Some st rs by (intro exI [of _ r']) (simp add: Let_def status_of_def)
    qed
  qed
qed

text \<open>
  Claim C9. When every registry entry consulted has a status, \<^verbatim>\<open>audit\<close> returns a result
  in which a check is counted as partial exactly when the registry status of its pattern is
  \<open>partial\<close>, as implemented for every other registered status (\<open>wontfix\<close> included), and
  as missing exactly when its pattern ID is not a key of the registry.
\<close>

theorem audit_counts:
  assumes "\<forall>c\<in>set checks. map_of kc (pattern_id c) \<noteq> None \<longrightarrow> registry_status kc c \<noteq> None"
  shows "\<exists>r. audit kc checks = Inr r
     \<and> sch_total_checks r = int (length checks)
     \<and> sch_partial r = int (length (filter (\<lambda>c. registry_status kc c = Some ''partial'') checks))
     \<and> sch_partial_checks r = filter (\<lambda>c. registry_status kc c = Some ''partial'') checks
     \<and> sch_implemented r
         = int (length (filter (\<lambda>c. registry_status kc c \<noteq> None
                                   \<and> registry_status kc c \<noteq> Some ''partial'') checks))
     \<and> sch_missing r = int (length (filter (\<lambda>c. map_of kc (pattern_id c) = None) checks))
     \<and> sch_missing_checks r = filter (\<lambda>c. map_of kc (pattern_id c) = None) checks"
  using audit_loop_counts [OF assms, of "{}" new_SchAuditResult]
  by (simp add: audit_def new_SchAuditResult_def)

text \<open>The theorem on the example registry: the two checks of the pattern marked
  \<open>wontfix\<close> are among the three counted as implemented.\<close>

theorem audit_counts_witness:
  "\<exists>r. audit example_registry example_checks = Inr r
     \<and> sch_total_checks r = 5 \<and> sch_partial r = 1 \<and> sch_implemented r = 3 \<and> sch_missing r = 1
     \<and> sch_missing_checks r = [assert_check ''opf.unknown'']"
proof -
  have h: "\<forall>c\<in>set example_checks. map_of example_registry (pattern_id c) \<noteq> None
             \<longrightarrow> registry_status example_registry c \<noteq> None"
    by (simp add: example_checks_def example_registry_def registry_status_def assert_check_def)
  from audit_counts [OF h] obtain r where
    "audit example_registry example_checks = Inr r"
    and "sch_total_checks r = int (length example_checks)"
    and "sch_partial r
       = int (length (filter (\<lambda>c. registry_status example_registry c = Some ''partial'')
                        example_checks))"
    and "sch_implemented r
       = int (length (filter (\<lambda>c. registry_status example_registry c \<noteq> None
                                 \<and> registry_status example_registry c \<noteq> Some ''partial'')
                        example_checks))"
    and "sch_missing r
       = int (length (filter (\<lambda>c. map_of example_registry (pattern_id c) = None)
                        example_checks))"
    and "sch_missing_checks r
       = filter (\<lambda>c. map_of example_registry (pattern_id c) = None) example_checks"
    by blast
  then show ?thesis
    by (intro exI [of _ r])
      (simp add: example_checks_def example_registry_def registry_status_def assert_check_def)
qed

section \<open>Properties of the structural-grammar audit\<close>

subsection \<open>Element extraction\<close>






















subsection \<open>Gap analysis\<close>

text \<open>When every entry of the registry has a status, no step of the analysis raises.\<close>

lemma status_of_total:
  "map_of known ''status'' \<noteq> None \<Longrightarrow> \<exists>st. status_of known = Inr st"
  by (auto simp: status_of_def)

lemma not_implemented_total:
  assumes "\<forall>known\<in>snd ` set kc. map_of known ''status'' \<noteq> None"
    and "ko = None \<or> (\<exists>known\<in>snd ` set kc. ko = Some known)"
  shows "\<exists>b. not_implemented ko = Inr b"
proof (cases ko)
  case None
  then show ?thesis by (auto simp: not_implemented_def)
next
  case (Some known)
  with assms have "map_of known ''status'' \<noteq> None" by auto
  from status_of_total [OF this] Some show ?thesis
    by (auto simp: not_implemented_def)
qed

lemma map_of_in_values: "map_of kc k = Some known \<Longrightarrow> known \<in> snd ` set kc"
  by (force dest: map_of_SomeD)

lemma not_implemented_lookup_total:
  assumes "\<forall>known\<in>snd ` set kc. map_of known ''status'' \<noteq> None"
  shows "\<exists>b. not_implemented (map_of kc k) = Inr b"
proof (rule not_implemented_total [OF assms])
  show "map_of kc k = None \<or> (\<exists>known\<in>snd ` set kc. map_of kc k = Some known)"
    by (cases "map_of kc k") (auto dest: map_of_in_values)
qed

lemma gather_total:
  "\<forall>x\<in>set xs. \<exists>ys. f x = Inr ys \<Longrightarrow>
   \<exists>yss. gather f xs = Inr (concat yss) \<and> list_all2 (\<lambda>x ys. f x = Inr ys) xs yss"
proof (induction xs)
  case Nil
  then show ?case by simp
next
  case (Cons x xs)
  then obtain ys where ys: "f x = Inr ys" by auto
  from Cons obtain yss where yss: "gather f xs = Inr (concat yss)"
    "list_all2 (\<lambda>x ys. f x = Inr ys) xs yss" by auto
  show ?case
    using ys yss by (intro exI [of _ "ys # yss"]) simp
qed

lemma gather_member:
  "gather f xs = Inr ys \<Longrightarrow> g \<in> set ys \<Longrightarrow> \<exists>x\<in>set xs. \<exists>zs. f x = Inr zs \<and> g \<in> set zs"
proof (induction xs arbitrary: ys)
  case Nil
  then show ?case by simp
next
  case (Cons x xs)
  from Cons.prems(1) obtain zs ws where z: "f x = Inr zs" and w: "gather f xs = Inr ws"
    and ys: "ys = zs @ ws"
    by (auto split: sum.splits)
  from Cons.prems(2) ys consider "g \<in> set zs" | "g \<in> set ws" by auto
  then show ?case
  proof cases
    case 1
    with z show ?thesis by auto
  next
    case 2
    from Cons.IH [OF w 2] show ?thesis by auto
  qed
qed

lemma concat_filter_own:
  assumes "list_all2 (\<lambda>x ys. f x = Inr ys) xs yss"
    and "distinct xs"
    and "\<forall>x\<in>set xs. \<forall>ys. f x = Inr ys \<longrightarrow> (\<forall>g\<in>set ys. P x g)"
    and "\<And>x g. P x g \<Longrightarrow> (P e g \<longleftrightarrow> x = e)"
    and "e \<in> set xs" and "f e = Inr ye"
  shows "filter (P e) (concat yss) = ye"
  using assms(1,2,3,5)
proof (induction xs yss rule: list_all2_induct)
  case Nil
  then show ?case by simp
next
  case (Cons x xs ys yss)
  from Cons.prems(2) Cons.hyps(1) have own: "\<forall>g\<in>set ys. P x g" by simp
  have rest: "\<forall>x\<in>set xs. \<forall>ys. f x = Inr ys \<longrightarrow> (\<forall>g\<in>set ys. P x g)"
    using Cons.prems(2) by simp
  have none: "filter (P e) (concat yss) = []" if "e \<notin> set xs"
  proof -
    have "\<forall>g\<in>set (concat yss). \<not> P e g"
    proof
      fix g assume "g \<in> set (concat yss)"
      then obtain zs where "zs \<in> set yss" "g \<in> set zs" by auto
      then obtain i where i: "i < length yss" "yss ! i = zs"
        by (auto simp: in_set_conv_nth)
      with Cons.hyps(2) have "xs ! i \<in> set xs" "f (xs ! i) = Inr zs"
        by (auto simp: list_all2_conv_all_nth)
      then obtain x' where "x' \<in> set xs" "f x' = Inr zs" by blast
      with rest \<open>g \<in> set zs\<close> have "P x' g" by blast
      with assms(4) [OF this] \<open>x' \<in> set xs\<close> that show "\<not> P e g" by auto
    qed
    then show ?thesis by (simp add: filter_empty_conv)
  qed
  show ?case
  proof (cases "x = e")
    case True
    with Cons.prems(1) have "e \<notin> set xs" by simp
    from none [OF this] own True Cons.hyps(1) assms(6) assms(4) show ?thesis
      by (auto simp: filter_id_conv)
  next
    case False
    with Cons.prems(3) have e: "e \<in> set xs" by simp
    from Cons.prems(1) have d: "distinct xs" by simp
    have "filter (P e) ys = []"
      using own assms(4) False by (auto simp: filter_empty_conv)
    with Cons.IH [OF d rest e] show ?thesis by simp
  qed
qed

lemma phrasing_item_fields:
  "affected_elements (phrasing_item x st go) = [x]
   \<and> priority (phrasing_item x st go)
       = (if x \<in> {''p'', ''h1'', ''h2'', ''h3'', ''h4'', ''h5'', ''h6'', ''span''}
          then ''high'' else ''medium'')
   \<and> gap_category (phrasing_item x st go) = ''content-model''"
  by (simp add: phrasing_item_def)

lemma phrasing_gap_result:
  assumes "\<forall>known\<in>snd ` set kc. map_of known ''status'' \<noteq> None"
  shows "\<exists>ys. phrasing_gap kc gi x = Inr ys
     \<and> length ys = (if get_implemented kc (x @ ''-phrasing-only'') \<or> gi then 0 else 1)
     \<and> (\<forall>g\<in>set ys. affected_elements g = [x]
            \<and> priority g = (if x \<in> {''p'', ''h1'', ''h2'', ''h3'', ''h4'', ''h5'', ''h6'', ''span''}
                            then ''high'' else ''medium'')
            \<and> gap_category g = ''content-model'')"
proof (cases "map_of kc (x @ ''-phrasing-only'')")
  case None
  then show ?thesis
    by (simp add: phrasing_gap_def get_implemented_def dict_get_def phrasing_item_fields)
next
  case (Some known)
  show ?thesis
  proof (cases "known = []")
    case True
    with Some show ?thesis
      by (simp add: phrasing_gap_def get_implemented_def dict_get_def phrasing_item_fields)
  next
    case False
    from Some have "known \<in> snd ` set kc" by (rule map_of_in_values)
    with assms obtain st where st: "map_of known ''status'' = Some st" by auto
    with Some False show ?thesis
      by (simp add: phrasing_gap_def get_implemented_def dict_get_def status_of_def
            phrasing_item_fields)
  qed
qed

lemma distinct_PHRASING_CONTENT_PARENTS: "distinct PHRASING_CONTENT_PARENTS"
  by (simp add: PHRASING_CONTENT_PARENTS_def)

lemma phrasing_gaps_result:
  assumes "\<forall>known\<in>snd ` set kc. map_of known ''status'' \<noteq> None"
    and "e \<in> set PHRASING_CONTENT_PARENTS"
  shows "\<exists>gs. phrasing_gaps kc = Inr gs
     \<and> length (filter (\<lambda>g. affected_elements g = [e] \<and> priority g \<noteq> ''low'') gs)
         = (if covered kc e then 0 else 1)
     \<and> (\<forall>g\<in>set gs. affected_elements g = [e] \<longrightarrow>
           priority g = (if e \<in> {''p'', ''h1'', ''h2'', ''h3'', ''h4'', ''h5'', ''h6'', ''span''}
                         then ''high'' else ''medium'')
           \<and> gap_category g = ''content-model'')"
proof -
  let ?gi = "get_implemented kc ''block-in-phrasing''"
  let ?f = "phrasing_gap kc ?gi"
  let ?xs = "sort PHRASING_CONTENT_PARENTS"
  let ?P = "\<lambda>x g. affected_elements g = [x] \<and> priority g \<noteq> ''low''"
  have tot: "\<forall>x\<in>set ?xs. \<exists>ys. ?f x = Inr ys"
    using phrasing_gap_result [OF assms(1)] by blast
  from gather_total [OF tot] obtain yss where
    g: "gather ?f ?xs = Inr (concat yss)" and l: "list_all2 (\<lambda>x ys. ?f x = Inr ys) ?xs yss"
    by blast
  from phrasing_gap_result [OF assms(1), of ?gi e] obtain ye where
    ye: "?f e = Inr ye"
    and len: "length ye = (if get_implemented kc (e @ ''-phrasing-only'') \<or> ?gi then 0 else 1)"
    by blast
  have own: "\<forall>x\<in>set ?xs. \<forall>ys. ?f x = Inr ys \<longrightarrow> (\<forall>g\<in>set ys. ?P x g)"
  proof (intro ballI allI impI)
    fix x ys g assume "?f x = Inr ys" "g \<in> set ys"
    with phrasing_gap_result [OF assms(1), of ?gi x] show "?P x g" by auto
  qed
  have d: "distinct ?xs"
    by (simp add: distinct_PHRASING_CONTENT_PARENTS)
  have e: "e \<in> set ?xs"
    using assms(2) by simp
  have "filter (?P e) (concat yss) = ye"
    by (rule concat_filter_own [where P = ?P, OF l d own _ e ye]) auto
  with len have c: "length (filter (?P e) (concat yss)) = (if covered kc e then 0 else 1)"
    by (simp add: covered_def)
  have p: "\<forall>g\<in>set (concat yss). affected_elements g = [e] \<longrightarrow>
           priority g = (if e \<in> {''p'', ''h1'', ''h2'', ''h3'', ''h4'', ''h5'', ''h6'', ''span''}
                         then ''high'' else ''medium'')
           \<and> gap_category g = ''content-model''"
  proof (intro ballI impI)
    fix g assume gin: "g \<in> set (concat yss)" and a: "affected_elements g = [e]"
    from gather_member [OF g gin] obtain x zs where "?f x = Inr zs" "g \<in> set zs" by blast
    with phrasing_gap_result [OF assms(1), of ?gi x] a
    show "priority g = (if e \<in> {''p'', ''h1'', ''h2'', ''h3'', ''h4'', ''h5'', ''h6'', ''span''}
                         then ''high'' else ''medium'')
           \<and> gap_category g = ''content-model''"
      by auto
  qed
  from g c p show ?thesis
    by (simp add: phrasing_gaps_def)
qed

lemma void_gaps_result:
  assumes "\<forall>known\<in>snd ` set kc. map_of known ''status'' \<noteq> None"
  shows "\<exists>gs. void_gaps kc = Inr gs \<and> (\<forall>g\<in>set gs. length (affected_elements g) = 14)"
proof -
  from not_implemented_lookup_total [OF assms, of "''void-elements-no-children''"]
  obtain b where "not_implemented (map_of kc ''void-elements-no-children'') = Inr b" by blast
  then show ?thesis
    by (simp add: void_gaps_def VOID_ELEMENTS_def)
qed

lemma parent_checked_total:
  "\<forall>known\<in>snd ` set kc. map_of known ''status'' \<noteq> None \<Longrightarrow> \<exists>b. parent_checked parent kc = Inr b"
proof (induction kc)
  case Nil
  then show ?case by auto
next
  case (Cons kv kc)
  obtain k v where kv: "kv = (k, v)" by (cases kv)
  from Cons.prems kv obtain st where st: "map_of v ''status'' = Some st" by auto
  from Cons obtain b where "parent_checked parent kc = Inr b" by auto
  with st show ?case
    by (auto simp: kv status_of_def)
qed

lemma restricted_allowed_nonempty:
  "(parent, allowed) \<in> set RESTRICTED_CHILDREN \<Longrightarrow> allowed \<noteq> []"
  by (auto simp: RESTRICTED_CHILDREN_def)

lemma restricted_gaps_result:
  assumes "\<forall>known\<in>snd ` set kc. map_of known ''status'' \<noteq> None"
  shows "\<exists>gs. restricted_gaps kc = Inr gs \<and> (\<forall>g\<in>set gs. 2 \<le> length (affected_elements g))"
proof -
  let ?rci = "get_implemented kc ''ul-ol-children'' \<and> get_implemented kc ''tr-children''
              \<and> get_implemented kc ''dl-structure''"
  let ?f = "restricted_gap kc ?rci"
  let ?xs = "sort_key fst RESTRICTED_CHILDREN"
  have each: "\<exists>ys. ?f pa = Inr ys \<and> (\<forall>g\<in>set ys. 2 \<le> length (affected_elements g))"
    if "pa \<in> set RESTRICTED_CHILDREN" for pa
  proof -
    obtain parent allowed where pa: "pa = (parent, allowed)" by (cases pa)
    from that pa have "allowed \<noteq> []" by (simp add: restricted_allowed_nonempty)
    then have len: "2 \<le> length (affected_elements (restricted_item parent allowed))"
      by (cases allowed) (simp_all add: restricted_item_def)
    from parent_checked_total [OF assms, of parent] obtain b where
      "parent_checked parent kc = Inr b" by blast
    with len show ?thesis
      by (simp add: pa restricted_gap_def)
  qed
  have tot: "\<forall>x\<in>set ?xs. \<exists>ys. ?f x = Inr ys"
  proof
    fix x assume "x \<in> set ?xs"
    then have "x \<in> set RESTRICTED_CHILDREN" by simp
    from each [OF this] show "\<exists>ys. ?f x = Inr ys" by blast
  qed
  from gather_total [OF tot] obtain yss where g: "gather ?f ?xs = Inr (concat yss)" by blast
  have "\<forall>g\<in>set (concat yss). 2 \<le> length (affected_elements g)"
  proof
    fix x assume "x \<in> set (concat yss)"
    from gather_member [OF g this] obtain pa zs where
      pa: "pa \<in> set ?xs" and z: "?f pa = Inr zs" "x \<in> set zs" by blast
    from pa have "pa \<in> set RESTRICTED_CHILDREN" by simp
    from each [OF this] z show "2 \<le> length (affected_elements x)" by auto
  qed
  with g show ?thesis
    by (simp add: restricted_gaps_def)
qed

lemma transparent_gaps_result:
  assumes "\<forall>known\<in>snd ` set kc. map_of known ''status'' \<noteq> None"
  shows "\<exists>gs. transparent_gaps kc = Inr gs
     \<and> (\<forall>g\<in>set gs. priority g = ''low''
           \<and> (\<exists>x\<in>set [''a'', ''ins'', ''del'', ''object'', ''video'', ''audio'', ''map''].
                 affected_elements g = [x]))"
proof -
  let ?ti = "get_implemented kc ''a-transparent-flow''"
  let ?f = "transparent_gap kc ?ti"
  let ?xs = "[''a'', ''ins'', ''del'', ''object'', ''video'', ''audio'', ''map'']"
  have each: "\<exists>ys. ?f x = Inr ys \<and> (\<forall>g\<in>set ys. priority g = ''low'' \<and> affected_elements g = [x])"
    for x
  proof -
    let ?ko = "map_option snd
                 (find (\<lambda>kv. contains x (fst kv) \<and> contains ''transparent'' (fst kv)) kc)"
    have "?ko = None \<or> (\<exists>known\<in>snd ` set kc. ?ko = Some known)"
    proof (cases "find (\<lambda>kv. contains x (fst kv) \<and> contains ''transparent'' (fst kv)) kc")
      case None
      then show ?thesis by simp
    next
      case (Some kv)
      then have "kv \<in> set kc" by (auto simp: find_Some_iff)
      with Some show ?thesis by auto
    qed
    from not_implemented_total [OF assms this] obtain b where "not_implemented ?ko = Inr b"
      by blast
    then show ?thesis
      by (simp add: transparent_gap_def transparent_item_def)
  qed
  then have tot: "\<forall>x\<in>set ?xs. \<exists>ys. ?f x = Inr ys" by blast
  from gather_total [OF tot] obtain yss where g: "gather ?f ?xs = Inr (concat yss)" by blast
  have "\<forall>g\<in>set (concat yss). priority g = ''low''
           \<and> (\<exists>x\<in>set ?xs. affected_elements g = [x])"
  proof
    fix y assume "y \<in> set (concat yss)"
    from gather_member [OF g this] obtain x zs where
      "x \<in> set ?xs" "?f x = Inr zs" "y \<in> set zs" by blast
    with each [of x] show "priority y = ''low'' \<and> (\<exists>x\<in>set ?xs. affected_elements y = [x])"
      by auto
  qed
  with g show ?thesis
    by (simp only: transparent_gaps_def) blast
qed

lemma interactive_gaps_result:
  assumes "\<forall>known\<in>snd ` set kc. map_of known ''status'' \<noteq> None"
  shows "\<exists>gs. interactive_gaps kc = Inr gs \<and> (\<forall>g\<in>set gs. length (affected_elements g) = 6)"
proof -
  from not_implemented_lookup_total [OF assms, of "''interactive-in-interactive''"]
  obtain b where "not_implemented (map_of kc ''interactive-in-interactive'') = Inr b" by blast
  then show ?thesis
    by (simp add: interactive_gaps_def Let_def)
qed

lemma input_gaps_result:
  assumes "\<forall>known\<in>snd ` set kc. map_of known ''status'' \<noteq> None"
  shows "\<exists>gs. input_gaps kc = Inr gs
     \<and> (\<forall>g\<in>set gs. priority g = ''low'' \<and> affected_elements g = [''input''])"
proof -
  from not_implemented_lookup_total [OF assms, of "''input-type''"]
  obtain b where "not_implemented (map_of kc ''input-type'') = Inr b" by blast
  then show ?thesis
    by (simp add: input_gaps_def)
qed

lemma picture_gaps_result:
  assumes "\<forall>known\<in>snd ` set kc. map_of known ''status'' \<noteq> None"
  shows "\<exists>gs. picture_gaps kc = Inr gs \<and> (\<forall>g\<in>set gs. length (affected_elements g) = 3)"
proof -
  from not_implemented_lookup_total [OF assms, of "''picture-img-required''"]
  obtain b where "not_implemented (map_of kc ''picture-img-required'') = Inr b" by blast
  then show ?thesis
    by (simp add: picture_gaps_def)
qed

lemma figure_gaps_result:
  assumes "\<forall>known\<in>snd ` set kc. map_of known ''status'' \<noteq> None"
  shows "\<exists>gs. figure_gaps kc = Inr gs \<and> (\<forall>g\<in>set gs. length (affected_elements g) = 2)"
proof -
  from not_implemented_lookup_total [OF assms, of "''figure-figcaption-position''"]
  obtain b where "not_implemented (map_of kc ''figure-figcaption-position'') = Inr b" by blast
  then show ?thesis
    by (simp add: figure_gaps_def)
qed

lemma phrasing_parent_not_transparent:
  "e \<in> set PHRASING_CONTENT_PARENTS \<Longrightarrow>
   e \<notin> {''ins'', ''del'', ''object'', ''video'', ''audio'', ''map'', ''input''}"
  by (auto simp: PHRASING_CONTENT_PARENTS_def)

text \<open>
  Claim C8, as amended. For a registry whose entries all carry a status and an element \<open>e\<close>
  of the phrasing-only set, the gap analysis returns a list of gap items in which exactly
  one item of priority other than \<open>low\<close> has \<open>[e]\<close> as its list of affected elements when
  neither the check for that element nor the general block-in-phrasing check is recorded
  as implemented, and none otherwise. Such an item has the category \<open>content-model\<close> and
  the priority \<open>high\<close> when \<open>e\<close> is one of p, h1 to h6 and span, \<open>medium\<close> otherwise. For every
  element other than \<open>a\<close> no other item has \<open>[e]\<close> as its list of affected elements.
\<close>

theorem phrasing_gap_items:
  assumes "\<forall>known\<in>snd ` set kc. map_of known ''status'' \<noteq> None"
    and "e \<in> set PHRASING_CONTENT_PARENTS"
  shows "\<exists>gaps. analyze_gaps kc els rules = Inr gaps
     \<and> length (filter (\<lambda>g. affected_elements g = [e] \<and> priority g \<noteq> ''low'') gaps)
         = (if covered kc e then 0 else 1)
     \<and> (\<forall>g\<in>set gaps. affected_elements g = [e] \<and> priority g \<noteq> ''low'' \<longrightarrow>
           priority g = (if e \<in> {''p'', ''h1'', ''h2'', ''h3'', ''h4'', ''h5'', ''h6'', ''span''}
                         then ''high'' else ''medium'')
           \<and> gap_category g = ''content-model'')
     \<and> (e \<noteq> ''a'' \<longrightarrow> (\<forall>g\<in>set gaps. affected_elements g = [e] \<longrightarrow> priority g \<noteq> ''low''))"
proof -
  let ?P = "\<lambda>g. affected_elements g = [e] \<and> priority g \<noteq> ''low''"
  let ?hi = "if e \<in> {''p'', ''h1'', ''h2'', ''h3'', ''h4'', ''h5'', ''h6'', ''span''}
             then ''high'' else ''medium''"
  from phrasing_gaps_result [OF assms] obtain g1 where
    s1: "phrasing_gaps kc = Inr g1"
    and c1: "length (filter ?P g1) = (if covered kc e then 0 else 1)"
    and p1: "\<forall>g\<in>set g1. affected_elements g = [e] \<longrightarrow>
               priority g = ?hi \<and> gap_category g = ''content-model''"
    by blast
  from void_gaps_result [OF assms(1)] obtain g2 where
    s2: "void_gaps kc = Inr g2" and p2: "\<forall>g\<in>set g2. length (affected_elements g) = 14"
    by blast
  from restricted_gaps_result [OF assms(1)] obtain g3 where
    s3: "restricted_gaps kc = Inr g3" and p3: "\<forall>g\<in>set g3. 2 \<le> length (affected_elements g)"
    by blast
  from transparent_gaps_result [OF assms(1)] obtain g4 where
    s4: "transparent_gaps kc = Inr g4"
    and p4: "\<forall>g\<in>set g4. priority g = ''low''
               \<and> (\<exists>x\<in>set [''a'', ''ins'', ''del'', ''object'', ''video'', ''audio'', ''map''].
                     affected_elements g = [x])"
    by blast
  from interactive_gaps_result [OF assms(1)] obtain g5 where
    s5: "interactive_gaps kc = Inr g5" and p5: "\<forall>g\<in>set g5. length (affected_elements g) = 6"
    by blast
  from input_gaps_result [OF assms(1)] obtain g6 where
    s6: "input_gaps kc = Inr g6"
    and p6: "\<forall>g\<in>set g6. priority g = ''low'' \<and> affected_elements g = [''input'']"
    by blast
  from picture_gaps_result [OF assms(1)] obtain g7 where
    s7: "picture_gaps kc = Inr g7" and p7: "\<forall>g\<in>set g7. length (affected_elements g) = 3"
    by blast
  from figure_gaps_result [OF assms(1)] obtain g8 where
    s8: "figure_gaps kc = Inr g8" and p8: "\<forall>g\<in>set g8. length (affected_elements g) = 2"
    by blast
  let ?rest = "g2 @ g3 @ g4 @ g5 @ g6 @ g7 @ g8"
  have run: "analyze_gaps kc els rules = Inr (g1 @ ?rest)"
    by (simp add: analyze_gaps_def s1 s2 s3 s4 s5 s6 s7 s8)
  have n2: "\<not> ?P g" if "g \<in> set g2" for g using p2 that by auto
  have n3: "\<not> ?P g" if "g \<in> set g3" for g using p3 that by fastforce
  have n4: "\<not> ?P g" if "g \<in> set g4" for g using p4 that by blast
  have n5: "\<not> ?P g" if "g \<in> set g5" for g using p5 that by auto
  have n6: "\<not> ?P g" if "g \<in> set g6" for g using p6 that by blast
  have n7: "\<not> ?P g" if "g \<in> set g7" for g using p7 that by auto
  have n8: "\<not> ?P g" if "g \<in> set g8" for g using p8 that by auto
  have none: "filter ?P ?rest = []"
    unfolding filter_empty_conv using n2 n3 n4 n5 n6 n7 n8 by auto
  have count: "length (filter ?P (g1 @ ?rest)) = (if covered kc e then 0 else 1)"
    using none c1 by (simp only: filter_append append_Nil2)
  have hi_not_low: "?hi \<noteq> ''low''" by simp
  have prio: "\<forall>g\<in>set (g1 @ ?rest). ?P g \<longrightarrow> priority g = ?hi \<and> gap_category g = ''content-model''"
  proof (intro ballI impI)
    fix g assume g: "g \<in> set (g1 @ ?rest)" and P: "?P g"
    from g P n2 n3 n4 n5 n6 n7 n8 have "g \<in> set g1" by auto
    with p1 P show "priority g = ?hi \<and> gap_category g = ''content-model''" by blast
  qed
  have others: "\<forall>g\<in>set (g1 @ ?rest). affected_elements g = [e] \<longrightarrow> priority g \<noteq> ''low''"
    if "e \<noteq> ''a''"
  proof (intro ballI impI)
    fix g assume g: "g \<in> set (g1 @ ?rest)" and a: "affected_elements g = [e]"
    from phrasing_parent_not_transparent [OF assms(2)] that
    have ne: "e \<notin> set [''a'', ''ins'', ''del'', ''object'', ''video'', ''audio'', ''map'']"
      and ni: "e \<noteq> ''input''"
      by simp_all
    have "g \<notin> set g2" using p2 a by auto
    moreover have "g \<notin> set g3" using p3 a by fastforce
    moreover have "g \<notin> set g4" using p4 a ne by fastforce
    moreover have "g \<notin> set g5" using p5 a by auto
    moreover have "g \<notin> set g6" using p6 a ni by auto
    moreover have "g \<notin> set g7" using p7 a by auto
    moreover have "g \<notin> set g8" using p8 a by auto
    ultimately have "g \<in> set g1" using g by auto
    with p1 a hi_not_low show "priority g \<noteq> ''low''" by metis
  qed
  from run count prio others show ?thesis
    by (intro exI [of _ "g1 @ ?rest"]) blast
qed

text \<open>The scenario of the specification: with nothing recorded, one item names \<open>span\<close>,
  and its priority is \<open>high\<close>.\<close>

theorem phrasing_gap_items_witness:
  "\<exists>gaps. analyze_gaps empty_registry [] () = Inr gaps
     \<and> length (filter (\<lambda>g. affected_elements g = [''span'']) gaps) = 1
     \<and> (\<forall>g\<in>set gaps. affected_elements g = [''span''] \<longrightarrow> priority g = ''high'')"
proof -
  have h1: "\<forall>known\<in>snd ` set empty_registry. map_of known ''status'' \<noteq> None"
    by (simp add: empty_registry_def)
  have h2: "''span'' \<in> set PHRASING_CONTENT_PARENTS"
    by (simp add: PHRASING_CONTENT_PARENTS_def)
  have nc: "\<not> covered empty_registry ''span''"
    by (simp add: covered_def get_implemented_def dict_get_def empty_registry_def)
  from phrasing_gap_items [OF h1 h2, of "[]" "()"] nc obtain gaps where
    run: "analyze_gaps empty_registry [] () = Inr gaps"
    and one: "length (filter (\<lambda>g. affected_elements g = [''span''] \<and> priority g \<noteq> ''low'') gaps) = 1"
    and hi: "\<forall>g\<in>set gaps. affected_elements g = [''span''] \<and> priority g \<noteq> ''low'' \<longrightarrow>
               priority g = ''high''"
    and all: "\<forall>g\<in>set gaps. affected_elements g = [''span''] \<longrightarrow> priority g \<noteq> ''low''"
    by auto
  from all have "filter (\<lambda>g. affected_elements g = [''span''] \<and> priority g \<noteq> ''low'') gaps
      = filter (\<lambda>g. affected_elements g = [''span'']) gaps"
    by (intro filter_cong) auto
  with run one hi all show ?thesis
    by (intro exI [of _ gaps]) auto
qed

text \<open>
  Claim C8 as stated fails at the phrasing-only element \<open>a\<close>: with the general
  block-in-phrasing check recorded as implemented, the analysis still emits exactly one
  gap item naming \<open>a\<close>, the low-priority finding of the transparent-content step.
\<close>

theorem transparent_item_counterexample:
  "covered general_registry ''a''
   \<and> gaps_naming ''a'' (analyze_gaps general_registry [] ()) = [transparent_item ''a'']"
  by code_simp

end
